theory Spec2Isabelle
  imports Complex_Main
begin

section \<open>Values\<close>

text \<open>
  The type tags of \<^verbatim>\<open>src/utils/type_detector.py\<close> (class \<^verbatim>\<open>DataType\<close>).
\<close>

datatype DataType = STRING | INTEGER | FLOAT | BOOLEAN | DATETIME | NULL | UNKNOWN

text \<open>
  Text is a \<^typ>\<open>string\<close>; a character stands for the code point of the same number
  (0 to 255). The program never computes with a float: it tests its type and prints it, so
  a float is represented by the text that \<^verbatim>\<open>repr\<close> prints for it. A native
  \<^verbatim>\<open>datetime\<close> object is only ever tested for its type.
\<close>

datatype pyfloat = PyFloat (float_repr: string)

datatype pydatetime = PyDateTime nat nat nat nat nat nat nat

text \<open>
  A decoded JSON document, as \<^verbatim>\<open>json.load\<close> returns it. A dict keeps its items in
  insertion order, so it is an association list; in a dict the keys are distinct. The
  decoder raises on an integer of more digits than the interpreter's limit (4300), so an
  integer of a document has no more digits than that, and printing it returns.
\<close>

datatype json =
    JNull
  | JBool bool
  | JInt int
  | JFloat pyfloat
  | JStr string
  | JList "json list"
  | JDict "(string \<times> json) list"

text \<open>
  The argument of \<^verbatim>\<open>infer_type\<close>: a decoded JSON value or a native datetime object.
\<close>

datatype pyval = JsonVal json | DateTimeVal pydatetime

datatype error = TypeError

type_synonym pydict = "(string \<times> json) list"

section \<open>Dictionaries in insertion order\<close>

text \<open>\<^verbatim>\<open>d[k] = v\<close>: an existing key keeps its place, a new key goes to the end.\<close>

fun dict_set :: "('k \<times> 'v) list \<Rightarrow> 'k \<Rightarrow> 'v \<Rightarrow> ('k \<times> 'v) list" where
  "dict_set [] k v = [(k, v)]"
| "dict_set ((k', v') # d) k v = (if k' = k then (k, v) # d else (k', v') # dict_set d k v)"

text \<open>\<^verbatim>\<open>d.update(e)\<close>: the items of \<open>e\<close> are stored in their order.\<close>

fun dict_update :: "('k \<times> 'v) list \<Rightarrow> ('k \<times> 'v) list \<Rightarrow> ('k \<times> 'v) list" where
  "dict_update d [] = d"
| "dict_update d ((k, v) # e) = dict_update (dict_set d k v) e"

text \<open>\<^verbatim>\<open>d.get(k)\<close> is \<^term>\<open>map_of d k\<close>, \<^verbatim>\<open>d.keys()\<close> is \<^term>\<open>map fst d\<close>.\<close>

definition dict_keys :: "('k \<times> 'v) list \<Rightarrow> 'k list" where
  "dict_keys d = map fst d"

section \<open>Text primitives of the language\<close>

definition ord :: "char \<Rightarrow> nat" where
  "ord c = of_char c"

text \<open>\<^verbatim>\<open>str.isspace\<close> on one character: the white space among the code points below 256.\<close>

definition py_isspace :: "char \<Rightarrow> bool" where
  "py_isspace c = ((9 \<le> ord c \<and> ord c \<le> 13) \<or> (28 \<le> ord c \<and> ord c \<le> 32)
                    \<or> ord c = 133 \<or> ord c = 160)"

definition strip :: "string \<Rightarrow> string" where
  "strip s = rev (dropWhile py_isspace (rev (dropWhile py_isspace s)))"

text \<open>
  \<^verbatim>\<open>str.upper\<close> and \<^verbatim>\<open>str.lower\<close> on the ASCII letters. The program only compares the
  result with ASCII words and looks for the letter e in it; below 256 no character outside
  ASCII is mapped to an ASCII letter by \<^verbatim>\<open>lower\<close>, and by \<^verbatim>\<open>upper\<close> only the sharp s
  (to SS, which occurs in none of the words), so these tests are not affected.
\<close>

definition upper_char :: "char \<Rightarrow> char" where
  "upper_char c = (if 97 \<le> ord c \<and> ord c \<le> 122 then char_of (ord c - 32) else c)"

definition lower_char :: "char \<Rightarrow> char" where
  "lower_char c = (if 65 \<le> ord c \<and> ord c \<le> 90 then char_of (ord c + 32) else c)"

definition upper :: "string \<Rightarrow> string" where
  "upper s = map upper_char s"

definition lower :: "string \<Rightarrow> string" where
  "lower s = map lower_char s"

definition is_digit :: "char \<Rightarrow> bool" where
  "is_digit c = (48 \<le> ord c \<and> ord c \<le> 57)"

text \<open>
  A run of decimal digits in which single underscores may separate digits: the digit part
  of the literals that \<^verbatim>\<open>int\<close> and \<^verbatim>\<open>float\<close> accept.
\<close>

fun digitpart :: "string \<Rightarrow> bool" where
  "digitpart [] = False"
| "digitpart [c] = is_digit c"
| "digitpart (c # d # cs) =
     (is_digit c \<and> (if d = CHR ''_'' then digitpart cs else digitpart (d # cs)))"

definition is_sign :: "char \<Rightarrow> bool" where
  "is_sign c = (c = CHR ''+'' \<or> c = CHR ''-'')"

definition unsign :: "string \<Rightarrow> string" where
  "unsign s = (case s of [] \<Rightarrow> [] | c # cs \<Rightarrow> if is_sign c then cs else s)"

text \<open>
  \<^verbatim>\<open>int\<close> and \<^verbatim>\<open>float\<close> skip white space around the literal themselves; their
  white space differs from that of \<^verbatim>\<open>str.strip\<close> (the separators 28 to 31 are not
  skipped).
\<close>

definition num_isspace :: "char \<Rightarrow> bool" where
  "num_isspace c = ((9 \<le> ord c \<and> ord c \<le> 13) \<or> ord c = 32 \<or> ord c = 133 \<or> ord c = 160)"

definition num_strip :: "string \<Rightarrow> string" where
  "num_strip s = rev (dropWhile num_isspace (rev (dropWhile num_isspace s)))"

text \<open>
  \<^verbatim>\<open>int(s)\<close> returns (rather than raising ValueError) exactly on: white space, an
  optional sign, a digit part, white space, where the digit part has no more digits than
  the interpreter's limit for the conversion of texts to integers. The limit is 4300
  unless the interpreter is configured otherwise; underscores and the sign do not count.
  The value is discarded by the program.
\<close>

definition int_max_str_digits :: nat where
  "int_max_str_digits = 4300"

definition int_ok :: "string \<Rightarrow> bool" where
  "int_ok s =
     (let t = unsign (num_strip s)
      in digitpart t \<and> length (filter is_digit t) \<le> int_max_str_digits)"

text \<open>
  \<^verbatim>\<open>float(s)\<close> returns exactly on: white space, an optional sign, then either one of the
  words inf, infinity, nan in any case, or a decimal literal: digits with an optional
  fraction, or a fraction alone, and an optional exponent.
\<close>

definition mantissa_ok :: "string \<Rightarrow> bool" where
  "mantissa_ok m =
     (let ip = takeWhile (\<lambda>c. c \<noteq> CHR ''.'') m; r = dropWhile (\<lambda>c. c \<noteq> CHR ''.'') m
      in case r of
           [] \<Rightarrow> digitpart ip
         | _ # fp \<Rightarrow> (ip = [] \<and> digitpart fp) \<or> (digitpart ip \<and> (fp = [] \<or> digitpart fp)))"

definition is_e :: "char \<Rightarrow> bool" where
  "is_e c = (c = CHR ''e'' \<or> c = CHR ''E'')"

definition decimal_ok :: "string \<Rightarrow> bool" where
  "decimal_ok t =
     (let m = takeWhile (\<lambda>c. \<not> is_e c) t; r = dropWhile (\<lambda>c. \<not> is_e c) t
      in case r of
           [] \<Rightarrow> mantissa_ok m
         | _ # ex \<Rightarrow> mantissa_ok m \<and> digitpart (unsign ex))"

definition float_ok :: "string \<Rightarrow> bool" where
  "float_ok s =
     (let t = unsign (num_strip s)
      in lower t \<in> set [''inf'', ''infinity'', ''nan''] \<or> decimal_ok t)"

section \<open>Regular expressions and \<^verbatim>\<open>datetime.strptime\<close>\<close>

text \<open>
  The fragment of the regular expressions of \<^verbatim>\<open>re\<close> that the program and
  \<^verbatim>\<open>strptime\<close> use. A character class is a list of code ranges. A match is tried by
  backtracking: \<open>rx_match r s\<close> lists, in the order in which the engine tries them, what
  is left of \<open>s\<close> after each way of matching \<open>r\<close> at its start.
\<close>

datatype rx =
    Cls "(nat \<times> nat) list"
  | Many1 "(nat \<times> nat) list"
  | Eps
  | Cat rx rx
  | Or rx rx

definition in_cls :: "char \<Rightarrow> (nat \<times> nat) list \<Rightarrow> bool" where
  "in_cls c rs = list_ex (\<lambda>(lo, hi). lo \<le> ord c \<and> ord c \<le> hi) rs"

fun rx_match :: "rx \<Rightarrow> string \<Rightarrow> string list" where
  "rx_match (Cls rs) s = (case s of [] \<Rightarrow> [] | c # cs \<Rightarrow> if in_cls c rs then [cs] else [])"
| "rx_match (Many1 rs) s =
     (let n = length (takeWhile (\<lambda>c. in_cls c rs) s) in map (\<lambda>k. drop k s) (rev [1..<Suc n]))"
| "rx_match Eps s = [s]"
| "rx_match (Cat a b) s = concat (map (rx_match b) (rx_match a s))"
| "rx_match (Or a b) s = rx_match a s @ rx_match b s"

definition rx_digit :: rx where
  "rx_digit = Cls [(48, 57)]"

definition rx_chr :: "char \<Rightarrow> rx" where
  "rx_chr c = Cls [(ord c, ord c)]"

definition rx_opt :: "rx \<Rightarrow> rx" where
  "rx_opt r = Or r Eps"

definition rx_space :: "(nat \<times> nat) list" where
  "rx_space = [(9, 13), (28, 32), (133, 133), (160, 160)]"

text \<open>
  The expressions of the directives, from \<^verbatim>\<open>_strptime.TimeRE\<close>; the eight formats of
  the program use these six directives.
\<close>

definition directive_rx :: "char \<Rightarrow> rx option" where
  "directive_rx c =
    (if c = CHR ''Y'' then Some (Cat rx_digit (Cat rx_digit (Cat rx_digit rx_digit)))
     else if c = CHR ''m'' then
       Some (Or (Cat (Cls [(49, 49)]) (Cls [(48, 50)]))
            (Or (Cat (Cls [(48, 48)]) (Cls [(49, 57)])) (Cls [(49, 57)])))
     else if c = CHR ''d'' then
       Some (Or (Cat (Cls [(51, 51)]) (Cls [(48, 49)]))
            (Or (Cat (Cls [(49, 50)]) rx_digit)
            (Or (Cat (Cls [(48, 48)]) (Cls [(49, 57)]))
            (Or (Cls [(49, 57)]) (Cat (Cls [(32, 32)]) (Cls [(49, 57)]))))))
     else if c = CHR ''H'' then
       Some (Or (Cat (Cls [(50, 50)]) (Cls [(48, 51)]))
            (Or (Cat (Cls [(48, 49)]) rx_digit) rx_digit))
     else if c = CHR ''M'' then
       Some (Or (Cat (Cls [(48, 53)]) rx_digit) rx_digit)
     else if c = CHR ''S'' then
       Some (Or (Cat (Cls [(54, 54)]) (Cls [(48, 49)]))
            (Or (Cat (Cls [(48, 53)]) rx_digit) rx_digit))
     else None)"

text \<open>
  A format is read as a sequence of directives, runs of white space (which match one or
  more white space characters) and literal characters (which match in either case).
\<close>

datatype fmt_item = Directive char | Whitespace | Literal char

fun parse_format :: "string \<Rightarrow> fmt_item list" where
  "parse_format [] = []"
| "parse_format [c] = (if py_isspace c then [Whitespace] else [Literal c])"
| "parse_format (c # d # cs) =
     (if c = CHR ''%'' then Directive d # parse_format cs
      else if py_isspace c then
        (case parse_format (d # cs) of
           Whitespace # r \<Rightarrow> Whitespace # r
         | r \<Rightarrow> Whitespace # r)
      else Literal c # parse_format (d # cs))"

definition item_rx :: "fmt_item \<Rightarrow> rx option" where
  "item_rx i =
    (case i of
       Directive c \<Rightarrow> directive_rx c
     | Whitespace \<Rightarrow> Some (Many1 rx_space)
     | Literal c \<Rightarrow> Some (Cls [(ord (lower_char c), ord (lower_char c)),
                               (ord (upper_char c), ord (upper_char c))]))"

text \<open>
  Matching a format: the matches of the whole sequence in the engine's order, each with
  the text captured by every directive and the text left over.
\<close>

fun match_items :: "fmt_item list \<Rightarrow> string \<Rightarrow> (char \<times> string) list
                      \<Rightarrow> ((char \<times> string) list \<times> string) list" where
  "match_items [] s caps = [(caps, s)]"
| "match_items (i # is) s caps =
     (case item_rx i of
        None \<Rightarrow> []
      | Some r \<Rightarrow>
          concat (map (\<lambda>rest.
             match_items is rest
               (case i of Directive c \<Rightarrow> caps @ [(c, take (length s - length rest) s)]
                        | _ \<Rightarrow> caps))
             (rx_match r s)))"

text \<open>The number that \<^verbatim>\<open>int\<close> reads from a captured group (a blank may lead it).\<close>

definition digits_val :: "string \<Rightarrow> nat" where
  "digits_val s = foldl (\<lambda>n c. 10 * n + (ord c - 48)) 0 (filter is_digit s)"

definition is_leap :: "nat \<Rightarrow> bool" where
  "is_leap y = (y mod 4 = 0 \<and> (y mod 100 \<noteq> 0 \<or> y mod 400 = 0))"

definition days_in_month :: "nat \<Rightarrow> nat \<Rightarrow> nat" where
  "days_in_month y m =
     (if m = 2 then (if is_leap y then 29 else 28)
      else if m \<in> set [4, 6, 9, 11] then 30 else 31)"

definition cap_val :: "(char \<times> string) list \<Rightarrow> char \<Rightarrow> nat \<Rightarrow> nat" where
  "cap_val caps c dflt = (case map_of caps c of None \<Rightarrow> dflt | Some t \<Rightarrow> digits_val t)"

text \<open>
  What the constructor of \<^verbatim>\<open>datetime\<close> checks beyond what the expressions already
  ensure: the year is at least 1, the day exists in the month, the second is below 60.
\<close>

definition date_valid :: "(char \<times> string) list \<Rightarrow> bool" where
  "date_valid caps =
     (let y = cap_val caps CHR ''Y'' 1900; m = cap_val caps CHR ''m'' 1;
          d = cap_val caps CHR ''d'' 1; sec = cap_val caps CHR ''S'' 0
      in 1 \<le> y \<and> 1 \<le> m \<and> m \<le> 12 \<and> 1 \<le> d \<and> d \<le> days_in_month y m \<and> sec \<le> 59)"

text \<open>
  \<^verbatim>\<open>datetime.strptime(value, fmt)\<close> returns (rather than raising ValueError) when the
  expression of the format matches at the start of the value, the first match ends at the
  end of the value, and the fields make a date. The result is discarded by the program.
\<close>

definition strptime_ok :: "string \<Rightarrow> string \<Rightarrow> bool" where
  "strptime_ok v fmt =
     (case match_items (parse_format fmt) v [] of
        [] \<Rightarrow> False
      | (caps, rest) # _ \<Rightarrow> rest = [] \<and> date_valid caps)"

section \<open>Printing values\<close>

function show_nat :: "nat \<Rightarrow> string" where
  "show_nat n = (if n < 10 then [char_of (48 + n)]
                 else show_nat (n div 10) @ [char_of (48 + n mod 10)])"
  by pat_completeness auto
termination
  by (relation "measure (\<lambda>n. n)") auto

definition show_int :: "int \<Rightarrow> string" where
  "show_int i = (if i < 0 then CHR ''-'' # show_nat (nat (- i)) else show_nat (nat i))"

definition hex_digit :: "nat \<Rightarrow> char" where
  "hex_digit n = (if n < 10 then char_of (48 + n) else char_of (87 + n))"

definition hex2 :: "nat \<Rightarrow> string" where
  "hex2 n = [hex_digit (n div 16 mod 16), hex_digit (n mod 16)]"

fun join :: "string \<Rightarrow> string list \<Rightarrow> string" where
  "join sep [] = []"
| "join sep [x] = x"
| "join sep (x # y # ys) = x @ sep @ join sep (y # ys)"

definition backslash :: char where
  "backslash = CHR 0x5C"

definition squote :: char where
  "squote = CHR 0x27"

definition dquote :: char where
  "dquote = CHR 0x22"

text \<open>\<^verbatim>\<open>repr\<close> of a text: the quote is chosen, then every character is escaped.\<close>

definition printable :: "char \<Rightarrow> bool" where
  "printable c = ((32 \<le> ord c \<and> ord c < 127) \<or> (161 \<le> ord c \<and> ord c \<noteq> 173))"

definition repr_char :: "char \<Rightarrow> char \<Rightarrow> string" where
  "repr_char q c =
     (if c = q \<or> c = backslash then [backslash, c]
      else if ord c = 9 then [backslash, CHR ''t'']
      else if ord c = 10 then [backslash, CHR ''n'']
      else if ord c = 13 then [backslash, CHR ''r'']
      else if \<not> printable c then [backslash, CHR ''x''] @ hex2 (ord c)
      else [c])"

definition repr_str :: "string \<Rightarrow> string" where
  "repr_str s =
     (let q = (if squote \<in> set s \<and> dquote \<notin> set s then dquote else squote)
      in [q] @ concat (map (repr_char q) s) @ [q])"

text \<open>
  \<^verbatim>\<open>repr\<close> of a decoded JSON value; \<^verbatim>\<open>str\<close> differs from it only on a text, which it
  returns as it is.
\<close>

fun py_repr :: "json \<Rightarrow> string" where
  "py_repr JNull = ''None''"
| "py_repr (JBool b) = (if b then ''True'' else ''False'')"
| "py_repr (JInt i) = show_int i"
| "py_repr (JFloat f) = float_repr f"
| "py_repr (JStr s) = repr_str s"
| "py_repr (JList xs) = ''['' @ join '', '' (map py_repr xs) @ '']''"
| "py_repr (JDict kvs) =
     ''{'' @ join '', '' (map (\<lambda>(k, v). repr_str k @ '': '' @ py_repr v) kvs) @ ''}''"

definition py_str :: "json \<Rightarrow> string" where
  "py_str v = (case v of JStr s \<Rightarrow> s | _ \<Rightarrow> py_repr v)"

text \<open>
  \<^verbatim>\<open>json.dumps\<close> with its defaults: the separators are a comma and a colon, each followed
  by a blank, and every character outside the printable ASCII range is escaped.
\<close>

definition json_escape :: "char \<Rightarrow> string" where
  "json_escape c =
     (if c = dquote \<or> c = backslash then [backslash, c]
      else if ord c = 10 then [backslash, CHR ''n'']
      else if ord c = 13 then [backslash, CHR ''r'']
      else if ord c = 9 then [backslash, CHR ''t'']
      else if ord c = 8 then [backslash, CHR ''b'']
      else if ord c = 12 then [backslash, CHR ''f'']
      else if ord c < 32 \<or> 126 < ord c then [backslash, CHR ''u'', CHR ''0'', CHR ''0''] @ hex2 (ord c)
      else [c])"

definition json_string :: "string \<Rightarrow> string" where
  "json_string s = [dquote] @ concat (map json_escape s) @ [dquote]"

definition json_float :: "pyfloat \<Rightarrow> string" where
  "json_float f =
     (if float_repr f = ''nan'' then ''NaN''
      else if float_repr f = ''inf'' then ''Infinity''
      else if float_repr f = ''-inf'' then ''-Infinity''
      else float_repr f)"

fun json_dumps :: "json \<Rightarrow> string" where
  "json_dumps JNull = ''null''"
| "json_dumps (JBool b) = (if b then ''true'' else ''false'')"
| "json_dumps (JInt i) = show_int i"
| "json_dumps (JFloat f) = json_float f"
| "json_dumps (JStr s) = json_string s"
| "json_dumps (JList xs) = ''['' @ join '', '' (map json_dumps xs) @ '']''"
| "json_dumps (JDict kvs) =
     ''{'' @ join '', '' (map (\<lambda>(k, v). json_string k @ '': '' @ json_dumps v) kvs) @ ''}''"

section \<open>Type detection (\<^verbatim>\<open>src/utils/type_detector.py\<close>)\<close>

definition DATETIME_FORMATS :: "string list" where
  "DATETIME_FORMATS =
     [''%Y-%m-%dT%H:%M:%SZ'',
      ''%Y-%m-%dT%H:%M:%S'',
      ''%Y-%m-%d %H:%M:%S'',
      ''%Y-%m-%d'',
      ''%d/%m/%Y'',
      ''%m/%d/%Y'',
      ''%d-%m-%Y'',
      ''%Y/%m/%d'']"

text \<open>
  The expression \<^verbatim>\<open>^\d{4}-\d{2}-\d{2}T\d{2}:\d{2}:\d{2}(\.\d+)?Z?$\<close>; the final
  \<^verbatim>\<open>$\<close> matches at the end of the text and before a line feed that ends it.
\<close>

definition rx_seq :: "rx list \<Rightarrow> rx" where
  "rx_seq rs = foldr Cat rs Eps"

definition iso_pattern :: rx where
  "iso_pattern =
     rx_seq [rx_digit, rx_digit, rx_digit, rx_digit, rx_chr CHR ''-'',
             rx_digit, rx_digit, rx_chr CHR ''-'', rx_digit, rx_digit, rx_chr CHR ''T'',
             rx_digit, rx_digit, rx_chr CHR '':'', rx_digit, rx_digit, rx_chr CHR '':'',
             rx_digit, rx_digit,
             rx_opt (Cat (rx_chr CHR ''.'') (Many1 [(48, 57)])),
             rx_opt (rx_chr CHR ''Z'')]"

definition re_match_iso :: "string \<Rightarrow> bool" where
  "re_match_iso s = list_ex (\<lambda>r. r = [] \<or> r = [CHR 0x0A]) (rx_match iso_pattern s)"

text \<open>\<^verbatim>\<open>_is_datetime\<close>: the loop over the formats returns at the first that parses.\<close>

definition is_datetime :: "string \<Rightarrow> bool" where
  "is_datetime v = (if list_ex (\<lambda>fmt. strptime_ok v fmt) DATETIME_FORMATS then True
                    else if re_match_iso v then True else False)"

fun first_format :: "string \<Rightarrow> string list \<Rightarrow> string option" where
  "first_format v [] = None"
| "first_format v (fmt # fmts) = (if strptime_ok v fmt then Some fmt else first_format v fmts)"

definition detect_date_format :: "string \<Rightarrow> string option" where
  "detect_date_format v = first_format v DATETIME_FORMATS"

definition isinstance_str :: "pyval \<Rightarrow> bool" where
  "isinstance_str v = (case v of JsonVal (JStr _) \<Rightarrow> True | _ \<Rightarrow> False)"

definition isinstance_bool :: "pyval \<Rightarrow> bool" where
  "isinstance_bool v = (case v of JsonVal (JBool _) \<Rightarrow> True | _ \<Rightarrow> False)"

text \<open>In the language a boolean is an integer too, so the test for bool comes first.\<close>

definition isinstance_int :: "pyval \<Rightarrow> bool" where
  "isinstance_int v = (case v of JsonVal (JInt _) \<Rightarrow> True | JsonVal (JBool _) \<Rightarrow> True | _ \<Rightarrow> False)"

definition isinstance_float :: "pyval \<Rightarrow> bool" where
  "isinstance_float v = (case v of JsonVal (JFloat _) \<Rightarrow> True | _ \<Rightarrow> False)"

definition isinstance_datetime :: "pyval \<Rightarrow> bool" where
  "isinstance_datetime v = (case v of DateTimeVal _ \<Rightarrow> True | _ \<Rightarrow> False)"

definition pad2 :: "nat \<Rightarrow> string" where
  "pad2 n = (if n < 10 then CHR ''0'' # show_nat n else show_nat n)"

definition pad_to :: "nat \<Rightarrow> string \<Rightarrow> string" where
  "pad_to w t = replicate (w - length t) CHR ''0'' @ t"

text \<open>\<^verbatim>\<open>str\<close> of any argument; a datetime prints as date, blank, time.\<close>

definition str_of :: "pyval \<Rightarrow> string" where
  "str_of v =
     (case v of
        JsonVal j \<Rightarrow> py_str j
      | DateTimeVal (PyDateTime y mo d h mi sec us) \<Rightarrow>
          pad_to 4 (show_nat y) @ ''-'' @ pad2 mo @ ''-'' @ pad2 d @ '' '' @
          pad2 h @ '':'' @ pad2 mi @ '':'' @ pad2 sec @
          (if us = 0 then [] else ''.'' @ pad_to 6 (show_nat us)))"

definition null_words :: "string list" where
  "null_words = [''NULL'', ''NONE'', ''N/A'', ''NA'', ''NAN'', ''UNDEFINED'']"

definition bool_words :: "string list" where
  "bool_words = [''TRUE'', ''FALSE'', ''YES'', ''NO'', ''Y'', ''N'']"

text \<open>
  \<^verbatim>\<open>infer_type\<close> from the point where the value is a stripped text. The test against
  the eight words with 1 and 0 only guards the test against the six words without them, so
  it decides nothing by itself.
\<close>

definition infer_text :: "string \<Rightarrow> DataType" where
  "infer_text v =
     (if v = [] then NULL
      else if upper v \<in> set null_words then NULL
      else if upper v \<in> set (bool_words @ [''1'', ''0'']) \<and> upper v \<in> set bool_words then BOOLEAN
      else if int_ok v \<and> CHR ''.'' \<notin> set v \<and> CHR ''e'' \<notin> set (lower v) then INTEGER
      else if float_ok v then FLOAT
      else if is_datetime v then DATETIME
      else STRING)"

definition infer_type :: "pyval \<Rightarrow> DataType" where
  "infer_type v =
     (if v = JsonVal JNull \<or> (isinstance_str v \<and> strip (str_of v) = []) then NULL
      else if isinstance_bool v then BOOLEAN
      else if isinstance_int v then INTEGER
      else if isinstance_float v then FLOAT
      else if isinstance_datetime v then DATETIME
      else infer_text (strip (str_of v)))"

text \<open>
  A \<^verbatim>\<open>Counter\<close> is a dict, so it keeps its keys in the order of their first count.
\<close>

type_synonym counter = "(DataType \<times> nat) list"

fun counter_incr :: "counter \<Rightarrow> DataType \<Rightarrow> counter" where
  "counter_incr [] t = [(t, 1)]"
| "counter_incr ((t', n) # c) t =
     (if t' = t then (t', n + 1) # c else (t', n) # counter_incr c t)"

text \<open>The loop of \<^verbatim>\<open>infer_column_type\<close> over the values, on its two variables.\<close>

fun count_types :: "pyval list \<Rightarrow> counter \<Rightarrow> nat \<Rightarrow> counter \<times> nat" where
  "count_types [] type_counts null_count = (type_counts, null_count)"
| "count_types (v # vs) type_counts null_count =
     (let detected_type = infer_type v
      in if detected_type = NULL then count_types vs type_counts (null_count + 1)
         else count_types vs (counter_incr type_counts detected_type) null_count)"

text \<open>
  \<^verbatim>\<open>most_common(1)\<close> takes \<^verbatim>\<open>max\<close> of the items by their count, and \<^verbatim>\<open>max\<close> keeps
  the first of several largest items: a later item replaces the best one only when its
  count is strictly larger.
\<close>

fun first_max :: "DataType \<times> nat \<Rightarrow> counter \<Rightarrow> DataType \<times> nat" where
  "first_max best [] = best"
| "first_max best (x # xs) = first_max (if snd best < snd x then x else best) xs"

text \<open>
  The threshold and the agreement ratio are floats in the program; here they are
  rationals and the division is exact. For the default threshold the two comparisons
  agree on every list of fewer than \<open>2 ^ 50\<close> values.
\<close>

definition infer_column_type :: "pyval list \<Rightarrow> rat \<Rightarrow> DataType" where
  "infer_column_type values threshold =
     (if values = [] then UNKNOWN
      else
        let (type_counts, null_count) = count_types values [] 0
        in case type_counts of
             [] \<Rightarrow> NULL
           | x # xs \<Rightarrow>
               let (most_common_type, count) = first_max x xs;
                   total_non_null = length values - null_count;
                   agreement_ratio =
                     (if total_non_null > 0 then of_nat count / of_nat total_non_null else 0)
               in if agreement_ratio \<ge> threshold then most_common_type
                  else if INTEGER \<in> set (dict_keys type_counts)
                          \<and> FLOAT \<in> set (dict_keys type_counts) then FLOAT
                  else STRING)"

definition default_threshold :: rat where
  "default_threshold = 8 / 10"

text \<open>\<^verbatim>\<open>record.get(field)\<close>: the value, or None when the key is absent.\<close>

definition record_get :: "pydict \<Rightarrow> string \<Rightarrow> json" where
  "record_get r field = (case map_of r field of None \<Rightarrow> JNull | Some v \<Rightarrow> v)"

definition field_values :: "pydict list \<Rightarrow> string \<Rightarrow> json list" where
  "field_values records field = map (\<lambda>r. record_get r field) records"

text \<open>
  Both \<^verbatim>\<open>analyze_field_types\<close> and \<^verbatim>\<open>detect_schema\<close> collect the field names in a
  \<^verbatim>\<open>set\<close> and then iterate over it. The language does not fix the order in which a set
  is iterated, and for texts it changes from run to run with the hash seed. The order is
  therefore a parameter \<open>order\<close>: the function that, from the names in the order they
  were inserted, gives the names in the order the set yields them.
\<close>

definition set_order_ok :: "(string list \<Rightarrow> string list) \<Rightarrow> bool" where
  "set_order_ok order = (\<forall>xs. set (order xs) = set xs \<and> distinct (order xs))"

definition all_fields :: "(string list \<Rightarrow> string list) \<Rightarrow> pydict list \<Rightarrow> string list" where
  "all_fields order records = order (concat (map dict_keys records))"

definition analyze_field_types ::
  "(string list \<Rightarrow> string list) \<Rightarrow> pydict list \<Rightarrow> (string \<times> DataType) list" where
  "analyze_field_types order records =
     (if records = [] then []
      else foldl (\<lambda>field_types field.
                    dict_set field_types field
                      (infer_column_type (map JsonVal (field_values records field))
                         default_threshold))
             [] (all_fields order records))"

section \<open>Parsed data (\<^verbatim>\<open>src/core/parsed_data.py\<close>)\<close>

record FieldMetadata =
  name :: string
  data_type :: string
  nullable :: bool
  null_count :: nat
  unique_count :: nat
  sample_values :: "json list"

record ParsedData =
  source_file :: string
  file_format :: string
  records :: "pydict list"
  field_metadata :: "(string \<times> FieldMetadata) list"
  hierarchy :: "(string \<times> nat) list"
  record_count :: nat

text \<open>\<^verbatim>\<open>ParsedData.__init__\<close> and the three setters.\<close>

definition ParsedData_init :: "string \<Rightarrow> string \<Rightarrow> ParsedData" where
  "ParsedData_init src fmt =
     \<lparr> source_file = src, file_format = fmt, records = [], field_metadata = [],
       hierarchy = [], record_count = 0 \<rparr>"

definition set_records :: "ParsedData \<Rightarrow> pydict list \<Rightarrow> ParsedData" where
  "set_records pd recs = pd \<lparr> records := recs, record_count := length recs \<rparr>"

definition set_field_metadata ::
  "ParsedData \<Rightarrow> (string \<times> FieldMetadata) list \<Rightarrow> ParsedData" where
  "set_field_metadata pd fm = pd \<lparr> field_metadata := fm \<rparr>"

definition set_hierarchy :: "ParsedData \<Rightarrow> (string \<times> nat) list \<Rightarrow> ParsedData" where
  "set_hierarchy pd h = pd \<lparr> hierarchy := h \<rparr>"

definition get_fields :: "ParsedData \<Rightarrow> string list" where
  "get_fields pd = dict_keys (field_metadata pd)"

section \<open>The JSON parser (\<^verbatim>\<open>src/parsers/json_parser.py\<close>)\<close>

definition isinstance_dict :: "json \<Rightarrow> bool" where
  "isinstance_dict v = (case v of JDict _ \<Rightarrow> True | _ \<Rightarrow> False)"

definition isinstance_list :: "json \<Rightarrow> bool" where
  "isinstance_list v = (case v of JList _ \<Rightarrow> True | _ \<Rightarrow> False)"

text \<open>\<^verbatim>\<open>isinstance(v, (str, int, float, bool))\<close>\<close>

definition isinstance_scalar :: "json \<Rightarrow> bool" where
  "isinstance_scalar v =
     (case v of JStr _ \<Rightarrow> True | JInt _ \<Rightarrow> True | JFloat _ \<Rightarrow> True | JBool _ \<Rightarrow> True
              | _ \<Rightarrow> False)"

text \<open>What \<^verbatim>\<open>_flatten_object\<close> stores for a list value.\<close>

definition flatten_list :: "json list \<Rightarrow> json" where
  "flatten_list xs =
     (if xs \<noteq> [] \<and> isinstance_dict (hd xs) then JStr (json_dumps (JList xs))
      else if list_all isinstance_scalar xs then JStr (join '', '' (map py_str xs))
      else JStr (json_dumps (JList xs)))"

text \<open>
  \<^verbatim>\<open>_flatten_object\<close>: the loop over the items of \<open>obj\<close>, with the dict
  \<open>flattened\<close> that it fills as last argument.
\<close>

fun flatten_loop :: "pydict \<Rightarrow> string \<Rightarrow> nat \<Rightarrow> nat \<Rightarrow> pydict \<Rightarrow> pydict" where
  "flatten_loop [] prefix max_depth current_depth flattened = flattened"
| "flatten_loop ((key, value) # rest) prefix max_depth current_depth flattened =
     (let new_key = (if prefix \<noteq> [] then prefix @ key else key)
      in flatten_loop rest prefix max_depth current_depth
           (case value of
              JDict nested_obj \<Rightarrow>
                if current_depth < max_depth
                then dict_update flattened
                       (flatten_loop nested_obj (new_key @ ''_'') max_depth (current_depth + 1) [])
                else dict_set flattened new_key value
            | JList xs \<Rightarrow> dict_set flattened new_key (flatten_list xs)
            | _ \<Rightarrow> dict_set flattened new_key value))"

definition flatten_object :: "pydict \<Rightarrow> string \<Rightarrow> nat \<Rightarrow> nat \<Rightarrow> pydict" where
  "flatten_object obj prefix max_depth current_depth =
     flatten_loop obj prefix max_depth current_depth []"

definition default_max_depth :: nat where
  "default_max_depth = 3"

text \<open>\<^verbatim>\<open>_flatten_records\<close>\<close>

definition flatten_records :: "json list \<Rightarrow> pydict list" where
  "flatten_records rs =
     map (\<lambda>r. case r of JDict obj \<Rightarrow> flatten_object obj [] default_max_depth 0
                       | _ \<Rightarrow> [(''value'', r)]) rs"

text \<open>
  \<^verbatim>\<open>_is_collection_dict\<close>; the product with 0.5 is exact, so the comparison is made
  in the rationals.
\<close>

definition is_collection_dict :: "pydict \<Rightarrow> bool" where
  "is_collection_dict data =
     (let list_count = length (filter isinstance_list (map snd data))
      in list_count > 0 \<and> (of_nat list_count :: rat) \<ge> of_nat (length data) * (5 / 10))"

text \<open>
  \<^verbatim>\<open>_flatten_collection_dict\<close>. The attribute \<^verbatim>\<open>self.hierarchy_map\<close> is passed
  through the loop together with \<^verbatim>\<open>all_records\<close>.
\<close>

definition flatten_item :: "string \<Rightarrow> json \<Rightarrow> pydict" where
  "flatten_item collection_name item =
     (case item of
        JDict obj \<Rightarrow>
          dict_set (flatten_object obj (collection_name @ ''_'') default_max_depth 0)
            ''_entity_type'' (JStr collection_name)
      | _ \<Rightarrow> [(''_entity_type'', JStr collection_name), (''value'', item)])"

fun flatten_collection_loop ::
  "pydict \<Rightarrow> (string \<times> nat) list \<times> pydict list \<Rightarrow> (string \<times> nat) list \<times> pydict list" where
  "flatten_collection_loop [] st = st"
| "flatten_collection_loop ((collection_name, collection_data) # rest) (hierarchy_map, all_records) =
     (case collection_data of
        JList items \<Rightarrow>
          flatten_collection_loop rest
            (dict_set hierarchy_map collection_name (length items),
             all_records @ map (flatten_item collection_name) items)
      | _ \<Rightarrow> flatten_collection_loop rest (hierarchy_map, all_records))"

definition flatten_collection_dict ::
  "pydict \<Rightarrow> (string \<times> nat) list \<Rightarrow> pydict list \<times> (string \<times> nat) list" where
  "flatten_collection_dict data hierarchy_map =
     (let (hm, all_records) = flatten_collection_loop data (hierarchy_map, [])
      in (all_records, hm))"

text \<open>
  \<^verbatim>\<open>_extract_records\<close> returns the records; its second result here is the attribute
  \<^verbatim>\<open>self.hierarchy_map\<close> as the call leaves it (the call resets it first).
\<close>

definition extract_records :: "json \<Rightarrow> pydict list \<times> (string \<times> nat) list" where
  "extract_records data =
     (case data of
        JList xs \<Rightarrow> (flatten_records xs, [])
      | JDict d \<Rightarrow>
          if is_collection_dict d then flatten_collection_dict d []
          else ([flatten_object d [] default_max_depth 0], [])
      | _ \<Rightarrow> ([[(''value'', data)]], []))"

text \<open>
  \<^verbatim>\<open>set(xs)\<close> hashes every element, and raises TypeError on a list or a dict. The order
  in which the set of values is then listed is again a parameter.
\<close>

definition hashable :: "json \<Rightarrow> bool" where
  "hashable v = (\<not> isinstance_list v \<and> \<not> isinstance_dict v)"

definition DataType_value :: "DataType \<Rightarrow> string" where
  "DataType_value t =
     (case t of STRING \<Rightarrow> ''string'' | INTEGER \<Rightarrow> ''integer'' | FLOAT \<Rightarrow> ''float''
              | BOOLEAN \<Rightarrow> ''boolean'' | DATETIME \<Rightarrow> ''datetime'' | NULL \<Rightarrow> ''null''
              | UNKNOWN \<Rightarrow> ''unknown'')"

definition field_metadata_of ::
  "(json list \<Rightarrow> json list) \<Rightarrow> (string \<times> DataType) list \<Rightarrow> pydict list \<Rightarrow> string
     \<Rightarrow> error + FieldMetadata" where
  "field_metadata_of value_order field_types recs field_name =
     (let values = field_values recs field_name;
          non_null_values = filter (\<lambda>v. v \<noteq> JNull) values
      in if \<not> list_all hashable non_null_values then Inl TypeError
         else Inr \<lparr> name = field_name,
                    data_type = DataType_value
                      (case map_of field_types field_name of None \<Rightarrow> UNKNOWN | Some t \<Rightarrow> t),
                    nullable = (length non_null_values < length values),
                    null_count = length values - length non_null_values,
                    unique_count = length (remdups (map py_str non_null_values)),
                    sample_values = take 5 (value_order non_null_values) \<rparr>)"

text \<open>The loop of \<^verbatim>\<open>detect_schema\<close> over the field names; an exception ends it.\<close>

fun metadata_loop ::
  "(json list \<Rightarrow> json list) \<Rightarrow> (string \<times> DataType) list \<Rightarrow> pydict list \<Rightarrow> string list
     \<Rightarrow> (string \<times> FieldMetadata) list \<Rightarrow> error + (string \<times> FieldMetadata) list" where
  "metadata_loop value_order field_types recs [] fm = Inr fm"
| "metadata_loop value_order field_types recs (field_name # names) fm =
     (case field_metadata_of value_order field_types recs field_name of
        Inl e \<Rightarrow> Inl e
      | Inr metadata \<Rightarrow>
          metadata_loop value_order field_types recs names (dict_set fm field_name metadata))"

record schema =
  schema_field_metadata :: "(string \<times> FieldMetadata) list"
  schema_hierarchy :: "(string \<times> nat) list"

definition detect_schema ::
  "(string list \<Rightarrow> string list) \<Rightarrow> (json list \<Rightarrow> json list) \<Rightarrow> (string \<times> nat) list
     \<Rightarrow> pydict list \<Rightarrow> error + schema" where
  "detect_schema order value_order hierarchy_map recs =
     (if recs = [] then Inr \<lparr> schema_field_metadata = [], schema_hierarchy = [] \<rparr>
      else
        let field_types = analyze_field_types order recs
        in case metadata_loop value_order field_types recs (all_fields order recs) [] of
             Inl e \<Rightarrow> Inl e
           | Inr fm \<Rightarrow> Inr \<lparr> schema_field_metadata = fm, schema_hierarchy = hierarchy_map \<rparr>)"

text \<open>\<^verbatim>\<open>parse\<close>, from the decoded document on.\<close>

definition parse ::
  "(string list \<Rightarrow> string list) \<Rightarrow> (json list \<Rightarrow> json list) \<Rightarrow> string \<Rightarrow> json
     \<Rightarrow> error + ParsedData" where
  "parse order value_order file_path raw_data =
     (let parsed_data = ParsedData_init file_path ''json'';
          (recs, hierarchy_map) = extract_records raw_data;
          parsed_data = set_records parsed_data recs
      in case detect_schema order value_order hierarchy_map recs of
           Inl e \<Rightarrow> Inl e
         | Inr sch \<Rightarrow>
             Inr (set_hierarchy
                    (set_field_metadata parsed_data (schema_field_metadata sch))
                    (schema_hierarchy sch)))"

section \<open>The CSV parser (\<^verbatim>\<open>src/parsers/csv_parser.py\<close>)\<close>

text \<open>
  \<^verbatim>\<open>parse\<close> reads the file into a data frame with the pandas library. The rows of the
  frame (\<^verbatim>\<open>df.to_dict('records')\<close>) and the field metadata that \<^verbatim>\<open>detect_schema\<close>
  computes from its columns are parameters here. \<^verbatim>\<open>detect_schema\<close> returns the empty
  dict as hierarchy, and \<^verbatim>\<open>parse\<close> stores the records and the field metadata only.
\<close>

definition csv_parse ::
  "string \<Rightarrow> pydict list \<Rightarrow> (string \<times> FieldMetadata) list \<Rightarrow> ParsedData" where
  "csv_parse file_path df_records df_field_metadata =
     (let parsed_data = ParsedData_init file_path ''csv'';
          parsed_data = set_records parsed_data df_records
      in set_field_metadata parsed_data df_field_metadata)"

section \<open>Notions used in the statements\<close>

text \<open>
  Counts over a column: how many values have a given type, how many are not Null, the
  largest count of a type other than Null, the types that occur, and the order in which
  the types are first met.
\<close>
definition type_count :: "pyval list \<Rightarrow> DataType \<Rightarrow> nat" where
  "type_count vs t = length (filter (\<lambda>v. infer_type v = t) vs)"

definition non_null_count :: "pyval list \<Rightarrow> nat" where
  "non_null_count vs = length (filter (\<lambda>v. infer_type v \<noteq> NULL) vs)"

definition non_null_types :: "pyval list \<Rightarrow> DataType list" where
  "non_null_types vs = filter (\<lambda>t. t \<noteq> NULL) (map infer_type vs)"

definition first_occ :: "'a list \<Rightarrow> 'a list" where
  "first_occ xs = rev (remdups (rev xs))"

definition non_null_tags :: "DataType list" where
  "non_null_tags = [STRING, INTEGER, FLOAT, BOOLEAN, DATETIME, UNKNOWN]"

definition max_count :: "pyval list \<Rightarrow> nat" where
  "max_count vs = Max (set (map (type_count vs) non_null_tags))"

definition column_types :: "pyval list \<Rightarrow> DataType set" where
  "column_types vs = set (map infer_type vs)"

definition seen_before :: "pyval list \<Rightarrow> DataType \<Rightarrow> DataType \<Rightarrow> bool" where
  "seen_before vs r t = (r \<in> set (map infer_type (takeWhile (\<lambda>v. infer_type v \<noteq> t) vs)))"

text \<open>
  The decision list of the specification for one value (its section 4.1), in notions that
  do not use the program's conversion to capitals. Two characters are the same up to case
  when they are equal, or one of them is a capital letter and the other is the small
  letter, 32 places after it; a text matches a token without regard to case when the two
  have the same length and their characters are the same up to case, place by place.
\<close>

definition is_capital :: "char \<Rightarrow> bool" where
  "is_capital c = (65 \<le> ord c \<and> ord c \<le> 90)"

definition same_up_to_case :: "char \<Rightarrow> char \<Rightarrow> bool" where
  "same_up_to_case c d =
     (c = d \<or> (is_capital c \<and> ord d = ord c + 32) \<or> (is_capital d \<and> ord c = ord d + 32))"

definition ci_equal :: "string \<Rightarrow> string \<Rightarrow> bool" where
  "ci_equal s t = list_all2 same_up_to_case s t"

definition ci_member :: "string \<Rightarrow> string list \<Rightarrow> bool" where
  "ci_member s tokens = list_ex (ci_equal s) tokens"

definition spec_null_tokens :: "string list" where
  "spec_null_tokens = [''NULL'', ''NONE'', ''N/A'', ''NA'', ''NAN'', ''UNDEFINED'']"

definition spec_bool_tokens :: "string list" where
  "spec_bool_tokens = [''TRUE'', ''FALSE'', ''YES'', ''NO'', ''Y'', ''N'']"

text \<open>
  An integer literal: white space, an optional sign, digits in which single underscores
  may separate digits, white space. Its number of digits is counted apart.
\<close>

definition integer_literal :: "string \<Rightarrow> bool" where
  "integer_literal s = digitpart (unsign (num_strip s))"

definition digit_count :: "string \<Rightarrow> nat" where
  "digit_count s = length (filter is_digit s)"

definition has_point_or_exponent :: "string \<Rightarrow> bool" where
  "has_point_or_exponent s = list_ex (\<lambda>c. c = CHR ''.'' \<or> c = CHR ''e'' \<or> c = CHR ''E'') s"

definition classify_text_spec :: "string \<Rightarrow> DataType" where
  "classify_text_spec s =
     (let t = strip s
      in if t = [] then NULL
         else if ci_member t spec_null_tokens then NULL
         else if ci_member t spec_bool_tokens then BOOLEAN
         else if integer_literal t \<and> digit_count t \<le> 4300 \<and> \<not> has_point_or_exponent t
           then INTEGER
         else if float_ok t then FLOAT
         else if detect_date_format t \<noteq> None \<or> re_match_iso t then DATETIME
         else STRING)"

definition classify_spec :: "pyval \<Rightarrow> DataType" where
  "classify_spec v =
     (case v of
        JsonVal JNull \<Rightarrow> NULL
      | JsonVal (JStr s) \<Rightarrow> classify_text_spec s
      | JsonVal (JBool b) \<Rightarrow> BOOLEAN
      | JsonVal (JInt i) \<Rightarrow> INTEGER
      | JsonVal (JFloat f) \<Rightarrow> FLOAT
      | DateTimeVal d \<Rightarrow> DATETIME
      | JsonVal other \<Rightarrow> classify_text_spec (py_str other))"

text \<open>An integer literal of 4301 digits.\<close>

definition long_literal :: string where
  "long_literal = replicate 4301 CHR ''1''"

definition fractional_example :: string where
  "fractional_example = ''2024-01-15T09:30:00.123Z''"

text \<open>
  A scalar of the specification's data model (its section 3): a number, a boolean, a
  text or null.
\<close>

definition spec_scalar :: "json \<Rightarrow> bool" where
  "spec_scalar v = (case v of JList _ \<Rightarrow> False | JDict _ \<Rightarrow> False | _ \<Rightarrow> True)"

text \<open>The keys of a dict whose value is a list, each with its list, in the order of the dict.\<close>

fun list_valued :: "pydict \<Rightarrow> (string \<times> json list) list" where
  "list_valued [] = []"
| "list_valued ((k, v) # d) =
     (case v of JList items \<Rightarrow> (k, items) # list_valued d | _ \<Rightarrow> list_valued d)"

definition collection_example :: pydict where
  "collection_example =
     [(''users'', JList [JDict [(''id'', JInt 1)]]), (''devices'', JList [JDict [(''id'', JInt 9)]])]"

text \<open>
  An iteration order for sets of names that is not the order of insertion: the names are
  yielded last inserted first.
\<close>

definition rev_order :: "string list \<Rightarrow> string list" where
  "rev_order xs = remdups (rev xs)"

definition two_fields_example :: "pydict list" where
  "two_fields_example = [[(''a'', JInt 1), (''b'', JInt 2)]]"

text \<open>An object nested one level deeper than \<^verbatim>\<open>_flatten_object\<close> descends.\<close>

definition deep_example :: json where
  "deep_example =
     JDict [(''a'', JDict [(''b'', JDict [(''c'', JDict [(''d'', JDict [(''e'', JInt 1)])])])])]"

section \<open>The column vote\<close>
lemma infer_text_not_unknown: "infer_text s \<noteq> UNKNOWN"
  by (simp add: infer_text_def)

lemma infer_type_not_unknown: "infer_type v \<noteq> UNKNOWN"
  by (simp add: infer_type_def infer_text_not_unknown)

lemma count_types_eq:
  "count_types vs tc nc =
     (foldl counter_incr tc (non_null_types vs),
      nc + length (filter (\<lambda>v. infer_type v = NULL) vs))"
  by (induction vs arbitrary: tc nc) (simp_all add: non_null_types_def Let_def)

lemma counter_incr_map:
  "distinct ks \<Longrightarrow> counter_incr (map (\<lambda>x. (x, f x)) ks) t =
     (if t \<in> set ks then map (\<lambda>x. (x, (f(t := f t + 1)) x)) ks
      else map (\<lambda>x. (x, f x)) ks @ [(t, 1)])"
  by (induction ks) auto

lemma first_occ_snoc:
  "first_occ (xs @ [x]) = (if x \<in> set xs then first_occ xs else first_occ xs @ [x])"
  by (simp add: first_occ_def)

lemma set_first_occ [simp]: "set (first_occ xs) = set xs"
  by (simp add: first_occ_def)

lemma distinct_first_occ [simp]: "distinct (first_occ xs)"
  by (simp add: first_occ_def)

lemma tally_eq:
  "foldl counter_incr [] ts = map (\<lambda>t. (t, count_list ts t)) (first_occ ts)"
proof (induction ts rule: rev_induct)
  case Nil
  show ?case by (simp add: first_occ_def)
next
  case (snoc t ts)
  have "foldl counter_incr [] (ts @ [t]) = counter_incr (map (\<lambda>x. (x, count_list ts x)) (first_occ ts)) t"
    using snoc by simp
  also have "\<dots> = (if t \<in> set ts then map (\<lambda>x. (x, ((count_list ts)(t := count_list ts t + 1)) x)) (first_occ ts)
      else map (\<lambda>x. (x, count_list ts x)) (first_occ ts) @ [(t, 1)])"
    by (subst counter_incr_map) simp_all
  also have "\<dots> = map (\<lambda>x. (x, count_list (ts @ [t]) x)) (first_occ (ts @ [t]))"
    by (auto simp: first_occ_snoc count_list_0_iff)
  finally show ?case .
qed


lemma non_null_tags_iff: "t \<in> set non_null_tags \<longleftrightarrow> t \<noteq> NULL"
  by (cases t) (simp_all add: non_null_tags_def)

lemma first_max_ge: "snd best \<le> snd (first_max best xs)"
proof (induction xs arbitrary: best)
  case Nil
  show ?case by simp
next
  case (Cons x xs)
  show ?case using Cons[of "if snd best < snd x then x else best"]
    by (auto split: if_splits)
qed

lemma first_max_split:
  "\<exists>pre post. best # xs = pre @ first_max best xs # post
      \<and> (\<forall>p\<in>set pre. snd p < snd (first_max best xs))
      \<and> (\<forall>p\<in>set post. snd p \<le> snd (first_max best xs))"
proof (induction xs arbitrary: best)
  case Nil
  show ?case by (intro exI[of _ "[]"]) simp
next
  case (Cons x xs)
  show ?case
  proof (cases "snd best < snd x")
    case True
    then have r: "first_max best (x # xs) = first_max x xs" by simp
    from Cons[of x] obtain pre post where
      sp: "x # xs = pre @ first_max x xs # post"
      and lt: "\<forall>p\<in>set pre. snd p < snd (first_max x xs)"
      and le: "\<forall>p\<in>set post. snd p \<le> snd (first_max x xs)"
      by blast
    have "snd best < snd (first_max x xs)"
      using True first_max_ge[of x xs] by linarith
    then have "\<forall>p\<in>set (best # pre). snd p < snd (first_max x xs)"
      using lt by simp
    moreover have "best # x # xs = (best # pre) @ first_max x xs # post"
      using sp by simp
    ultimately show ?thesis unfolding r using le by blast
  next
    case False
    then have r: "first_max best (x # xs) = first_max best xs" by simp
    from Cons[of best] obtain pre post where
      sp: "best # xs = pre @ first_max best xs # post"
      and lt: "\<forall>p\<in>set pre. snd p < snd (first_max best xs)"
      and le: "\<forall>p\<in>set post. snd p \<le> snd (first_max best xs)"
      by blast
    show ?thesis
    proof (cases pre)
      case Nil
      with sp have "best # xs = first_max best xs # post" by (metis append_Nil)
      then have b: "first_max best xs = best" and post: "post = xs" by (metis list.inject)+
      have "best # x # xs = [] @ first_max best xs # (x # xs)" using b by simp
      moreover have "\<forall>p\<in>set (x # xs). snd p \<le> snd (first_max best xs)"
        using le post b False by auto
      ultimately show ?thesis unfolding r by (metis empty_iff list.set(1))
    next
      case (Cons p pre')
      with sp have "best # xs = p # pre' @ first_max best xs # post" by (metis append_Cons)
      then have p: "p = best" and xs: "xs = pre' @ first_max best xs # post"
        by (metis list.inject)+
      have "snd best < snd (first_max best xs)" using lt Cons p by simp
      then have "\<forall>q\<in>set (best # x # pre'). snd q < snd (first_max best xs)"
        using lt Cons False by auto
      moreover have "best # x # xs = (best # x # pre') @ first_max best xs # post"
        using xs by simp
      ultimately show ?thesis unfolding r using le by blast
    qed
  qed
qed

lemma count_list_types:
  "t \<noteq> NULL \<Longrightarrow> count_list (non_null_types vs) t = type_count vs t"
  by (induction vs) (auto simp: non_null_types_def type_count_def)

lemma length_non_null_types: "length (non_null_types vs) = non_null_count vs"
  by (induction vs) (auto simp: non_null_types_def non_null_count_def)

lemma null_plus_non_null:
  "length (filter (\<lambda>v. infer_type v = NULL) vs) + non_null_count vs = length vs"
  by (induction vs) (auto simp: non_null_count_def)

lemma set_non_null_types: "set (non_null_types vs) = column_types vs - {NULL}"
  by (auto simp: non_null_types_def column_types_def)

text \<open>The result of the column vote, in terms of the tally.\<close>

lemma infer_column_type_unfold:
  assumes "non_null_types vs \<noteq> []"
  shows "infer_column_type vs th =
     (let c = map (\<lambda>t. (t, type_count vs t)) (first_occ (non_null_types vs));
          m = first_max (hd c) (tl c)
      in if th \<le> of_nat (snd m) / of_nat (non_null_count vs) then fst m
         else if INTEGER \<in> column_types vs \<and> FLOAT \<in> column_types vs then FLOAT
         else STRING)"
proof -
  let ?ts = "non_null_types vs"
  let ?c = "map (\<lambda>t. (t, type_count vs t)) (first_occ ?ts)"
  have vs: "vs \<noteq> []" using assms by (auto simp: non_null_types_def)
  have c: "foldl counter_incr [] ?ts = ?c"
    unfolding tally_eq
    by (rule map_cong) (auto simp: count_list_types set_non_null_types)
  have ne: "?c \<noteq> []" using assms
    by (metis list.map_disc_iff set_empty set_first_occ)
  then obtain x xs where cx: "?c = x # xs" by (cases ?c) auto
  have n: "length vs - length (filter (\<lambda>v. infer_type v = NULL) vs) = non_null_count vs"
    using null_plus_non_null[of vs] by simp
  have pos: "0 < non_null_count vs"
    using assms length_non_null_types[of vs] by (cases ?ts) auto
  have keys: "set (dict_keys ?c) = column_types vs - {NULL}"
    by (simp add: dict_keys_def comp_def set_non_null_types)
  have lt: "length (filter (\<lambda>v. infer_type v = NULL) vs) < length vs"
    using pos null_plus_non_null[of vs] by linarith
  show ?thesis
    unfolding infer_column_type_def count_types_eq
    using vs pos keys lt
    by (auto simp: c n cx Let_def split: prod.splits)
qed


lemma takeWhile_append_subset:
  "set (takeWhile P xs) \<subseteq> set (takeWhile P (xs @ ys))"
  by (induction xs) auto

lemma first_occ_before:
  "first_occ ts = pre @ t # post \<Longrightarrow> set pre \<subseteq> set (takeWhile (\<lambda>x. x \<noteq> t) ts)"
proof (induction ts arbitrary: post rule: rev_induct)
  case Nil
  then show ?case by (simp add: first_occ_def)
next
  case (snoc x ts)
  show ?case
  proof (cases "x \<in> set ts")
    case True
    with snoc.prems have "first_occ ts = pre @ t # post" by (simp add: first_occ_snoc)
    from snoc.IH[OF this] show ?thesis
      using takeWhile_append_subset[of "\<lambda>x. x \<noteq> t" ts "[x]"] by blast
  next
    case False
    with snoc.prems have eq: "first_occ ts @ [x] = pre @ t # post"
      by (simp add: first_occ_snoc)
    show ?thesis
    proof (cases post rule: rev_cases)
      case Nil
      with eq have fp: "first_occ ts = pre" and xt: "x = t" by simp_all
      have sp: "set pre = set ts" using fp by (metis set_first_occ)
      have tn: "t \<notin> set ts" using False xt by simp
      then have "takeWhile (\<lambda>x. x \<noteq> t) ts = ts" by (auto simp: takeWhile_eq_all_conv)
      then have "set ts \<subseteq> set (takeWhile (\<lambda>x. x \<noteq> t) (ts @ [x]))"
        by (simp add: takeWhile_append)
      then show ?thesis using sp by simp
    next
      case (snoc post' y)
      with eq have "first_occ ts = pre @ t # post'" by simp
      from snoc.IH[OF this] show ?thesis
        using takeWhile_append_subset[of "\<lambda>x. x \<noteq> t" ts "[x]"] by blast
    qed
  qed
qed

lemma takeWhile_filter_subset:
  "\<not> Q t \<Longrightarrow> set (takeWhile (\<lambda>x. x \<noteq> t) (filter (\<lambda>x. \<not> Q x) ts)) \<subseteq> set (takeWhile (\<lambda>x. x \<noteq> t) ts)"
  by (induction ts) auto

lemma most_common_props:
  assumes ne: "non_null_types vs \<noteq> []"
  defines "c \<equiv> map (\<lambda>t. (t, type_count vs t)) (first_occ (non_null_types vs))"
  defines "m \<equiv> first_max (hd c) (tl c)"
  shows "fst m \<in> column_types vs" and "fst m \<noteq> NULL"
    and "snd m = type_count vs (fst m)" and "snd m = max_count vs"
    and "\<And>t. t \<noteq> NULL \<Longrightarrow> t \<noteq> fst m \<Longrightarrow> type_count vs t = max_count vs
            \<Longrightarrow> seen_before vs (fst m) t"
proof -
  let ?ts = "non_null_types vs"
  have cne: "c \<noteq> []" using ne unfolding c_def
    by (metis list.map_disc_iff set_empty set_first_occ)
  then have hc: "hd c # tl c = c" by simp
  from first_max_split[of "hd c" "tl c"] obtain pre post where
    sp: "c = pre @ m # post"
    and lt: "\<forall>p\<in>set pre. snd p < snd m"
    and le: "\<forall>p\<in>set post. snd p \<le> snd m"
    unfolding m_def hc by blast
  have min: "m \<in> set c" using sp by simp
  then obtain t0 where t0: "t0 \<in> set ?ts" "m = (t0, type_count vs t0)"
    unfolding c_def by auto
  show 1: "fst m \<in> column_types vs" and 2: "fst m \<noteq> NULL"
    using t0 by (auto simp: set_non_null_types)
  show 3: "snd m = type_count vs (fst m)" using t0 by simp
  have all_le: "\<And>p. p \<in> set c \<Longrightarrow> snd p \<le> snd m"
    using sp lt le by (auto simp: less_imp_le)
  have tc_le: "type_count vs t \<le> snd m" if "t \<noteq> NULL" for t
  proof (cases "t \<in> set ?ts")
    case True
    then have "(t, type_count vs t) \<in> set c" unfolding c_def by auto
    from all_le[OF this] show ?thesis by simp
  next
    case False
    then have "t \<notin> column_types vs" using that by (simp add: set_non_null_types)
    then have "type_count vs t = 0"
      by (auto simp: type_count_def column_types_def filter_empty_conv)
    then show ?thesis by simp
  qed
  show 4: "snd m = max_count vs"
  proof (rule antisym)
    have "fst m \<in> set non_null_tags" using 2 by (simp add: non_null_tags_iff)
    then have "type_count vs (fst m) \<in> set (map (type_count vs) non_null_tags)" by simp
    then show "snd m \<le> max_count vs" unfolding max_count_def 3
      by (intro Max_ge) simp_all
    show "max_count vs \<le> snd m" unfolding max_count_def
      by (intro Max.boundedI) (auto simp: non_null_tags_iff tc_le non_null_tags_def)
  qed
  show "seen_before vs (fst m) t"
    if tn: "t \<noteq> NULL" and tm: "t \<noteq> fst m" and tc: "type_count vs t = max_count vs" for t
  proof -
    have pos: "0 < snd m"
      using t0 by (auto simp: type_count_def non_null_types_def filter_empty_conv)
    then have "type_count vs t \<noteq> 0" using tc 4 by simp
    then have "t \<in> column_types vs"
      by (auto simp: type_count_def column_types_def filter_empty_conv)
    then have "t \<in> set ?ts" using tn by (simp add: set_non_null_types)
    then have tin: "(t, type_count vs t) \<in> set c" unfolding c_def by auto
    have "(t, type_count vs t) \<notin> set pre" using lt tc 4 by auto
    moreover have "(t, type_count vs t) \<noteq> m" using tm by auto
    ultimately have "(t, type_count vs t) \<in> set post" using tin sp by auto
    then obtain q1 q2 where post: "post = q1 @ (t, type_count vs t) # q2"
      by (meson split_list)
    have "map fst c = first_occ ?ts" unfolding c_def by (simp add: comp_def)
    then have "first_occ ?ts = (map fst pre @ fst m # map fst q1) @ t # map fst q2"
      using sp post by simp
    from first_occ_before[OF this]
    have "fst m \<in> set (takeWhile (\<lambda>x. x \<noteq> t) ?ts)" by auto
    then have "fst m \<in> set (takeWhile (\<lambda>x. x \<noteq> t) (map infer_type vs))"
      using takeWhile_filter_subset[of "\<lambda>x. x = NULL" t "map infer_type vs"] tn
      unfolding non_null_types_def by auto
    then show ?thesis
      by (simp add: seen_before_def takeWhile_map comp_def)
  qed
qed


lemma infer_column_type_all_null:
  assumes "vs \<noteq> []" "non_null_types vs = []"
  shows "infer_column_type vs th = NULL"
  using assms unfolding infer_column_type_def count_types_eq by simp

lemma non_null_types_empty_iff:
  "non_null_types vs = [] \<longleftrightarrow> list_all (\<lambda>v. infer_type v = NULL) vs"
  by (induction vs) (auto simp: non_null_types_def)

lemma infer_column_type_cases:
  assumes "non_null_types vs \<noteq> []"
  shows "infer_column_type vs th =
     (if th \<le> of_nat (max_count vs) / of_nat (non_null_count vs)
      then fst (first_max (hd (map (\<lambda>t. (t, type_count vs t)) (first_occ (non_null_types vs))))
                          (tl (map (\<lambda>t. (t, type_count vs t)) (first_occ (non_null_types vs)))))
      else if INTEGER \<in> column_types vs \<and> FLOAT \<in> column_types vs then FLOAT
      else STRING)"
  using infer_column_type_unfold[OF assms, of th] most_common_props(4)[OF assms]
  by (simp add: Let_def)

text \<open>
  Claim C4. On an empty list \<^verbatim>\<open>infer_column_type\<close> returns Unknown; on a list that is
  not empty and whose values all classify as Null it returns Null.
\<close>
theorem infer_column_type_empty_and_null:
  "infer_column_type [] th = UNKNOWN \<and>
   (vs \<noteq> [] \<and> list_all (\<lambda>v. infer_type v = NULL) vs \<longrightarrow> infer_column_type vs th = NULL)"
  by (simp add: infer_column_type_all_null non_null_types_empty_iff)
     (simp add: infer_column_type_def)

theorem infer_column_type_empty_and_null_witness:
  "[JsonVal JNull, JsonVal (JStr ''  '')] \<noteq> []
   \<and> list_all (\<lambda>v. infer_type v = NULL) [JsonVal JNull, JsonVal (JStr ''  '')]
   \<and> infer_column_type [JsonVal JNull, JsonVal (JStr ''  '')] default_threshold = NULL"
proof -
  have a: "infer_type (JsonVal JNull) = NULL" by code_simp
  have b: "infer_type (JsonVal (JStr ''  '')) = NULL" by code_simp
  show ?thesis
    using infer_column_type_empty_and_null[of default_threshold "[JsonVal JNull, JsonVal (JStr ''  '')]"]
    by (simp add: a b)
qed

text \<open>
  Claim C10. \<^verbatim>\<open>infer_type\<close> never returns Unknown: its result is one of Null, Boolean,
  Integer, Float, DateTime, String. \<^verbatim>\<open>infer_column_type\<close> returns Unknown exactly on
  the empty list.
\<close>
theorem infer_type_never_unknown:
  "infer_type v \<in> set [NULL, BOOLEAN, INTEGER, FLOAT, DATETIME, STRING]
   \<and> (infer_column_type vs th = UNKNOWN \<longleftrightarrow> vs = [])"
proof
  show "infer_type v \<in> set [NULL, BOOLEAN, INTEGER, FLOAT, DATETIME, STRING]"
    using infer_type_not_unknown[of v] by (cases "infer_type v") simp_all
  show "infer_column_type vs th = UNKNOWN \<longleftrightarrow> vs = []"
  proof (cases "vs = []")
    case True
    then show ?thesis by (simp add: infer_column_type_def)
  next
    case False
    show ?thesis
    proof (cases "non_null_types vs = []")
      case True
      with False show ?thesis by (simp add: infer_column_type_all_null)
    next
      case ne: False
      have "fst (first_max (hd (map (\<lambda>t. (t, type_count vs t)) (first_occ (non_null_types vs))))
                          (tl (map (\<lambda>t. (t, type_count vs t)) (first_occ (non_null_types vs)))))
            \<noteq> UNKNOWN"
        using most_common_props(1)[OF ne] infer_type_not_unknown
        unfolding column_types_def by (metis (no_types, lifting) imageE list.set_map)
      then show ?thesis using False
        by (simp add: infer_column_type_cases[OF ne])
    qed
  qed
qed

text \<open>
  Claim C3. On a list with at least one value that is not Null, the rules are tried in
  this order. The share of the most common type among the values that are not Null is
  compared with the threshold; when it reaches it, the result is a type (not Null) with
  that largest count. Otherwise, when Integer and Float both occur, the result is Float.
  Otherwise it is String. The denominator counts only the values that are not Null. On
  \<^verbatim>\<open>[1, 2.5, 3, 4.0]\<close> the result is Float.
\<close>
theorem infer_column_type_rule_order:
  assumes "list_ex (\<lambda>v. infer_type v \<noteq> NULL) vs"
  shows "(if th \<le> of_nat (max_count vs) / of_nat (non_null_count vs)
          then infer_column_type vs th \<noteq> NULL
               \<and> type_count vs (infer_column_type vs th) = max_count vs
          else if INTEGER \<in> column_types vs \<and> FLOAT \<in> column_types vs
          then infer_column_type vs th = FLOAT
          else infer_column_type vs th = STRING)
         \<and> non_null_count vs = length (filter (\<lambda>v. infer_type v \<noteq> NULL) vs)
         \<and> infer_column_type
              [JsonVal (JInt 1), JsonVal (JFloat (PyFloat ''2.5'')), JsonVal (JInt 3),
               JsonVal (JFloat (PyFloat ''4.0''))] default_threshold = FLOAT"
proof -
  have ne: "non_null_types vs \<noteq> []"
    using assms by (auto simp: non_null_types_empty_iff list_ex_iff list_all_iff)
  have ex: "infer_column_type
              [JsonVal (JInt 1), JsonVal (JFloat (PyFloat ''2.5'')), JsonVal (JInt 3),
               JsonVal (JFloat (PyFloat ''4.0''))] default_threshold = FLOAT"
    by code_simp
  show ?thesis
    using most_common_props(2,3,4)[OF ne] ex
    by (simp add: infer_column_type_cases[OF ne] non_null_count_def)
qed

theorem infer_column_type_rule_order_witness:
  "list_ex (\<lambda>v. infer_type v \<noteq> NULL)
     [JsonVal (JInt 1), JsonVal (JBool True), JsonVal JNull, JsonVal (JFloat (PyFloat ''2.5''))]
   \<and> infer_column_type
       [JsonVal (JInt 1), JsonVal (JBool True), JsonVal JNull, JsonVal (JFloat (PyFloat ''2.5''))]
       default_threshold = FLOAT"
proof -
  let ?vs = "[JsonVal (JInt 1), JsonVal (JBool True), JsonVal JNull, JsonVal (JFloat (PyFloat ''2.5''))]"
  have h: "list_ex (\<lambda>v. infer_type v \<noteq> NULL) ?vs" by code_simp
  have m: "max_count ?vs = 1" by code_simp
  have n: "non_null_count ?vs = 3" by code_simp
  have t: "\<not> default_threshold \<le> 1 / 3" by (simp add: default_threshold_def)
  have c: "INTEGER \<in> column_types ?vs \<and> FLOAT \<in> column_types ?vs" by code_simp
  show ?thesis
    using infer_column_type_rule_order[OF h, of default_threshold] h m n t c
    by simp
qed

text \<open>
  Claim C8. When the agreement check succeeds and another type \<open>t\<close> has the same largest
  count as the type returned, a value of the returned type is scanned before the first
  value of type \<open>t\<close>: among tied types the first one met wins.
\<close>
theorem infer_column_type_tie_break:
  assumes "list_ex (\<lambda>v. infer_type v \<noteq> NULL) vs"
    and "th \<le> of_nat (max_count vs) / of_nat (non_null_count vs)"
    and "t \<noteq> NULL" and "type_count vs t = max_count vs" and "t \<noteq> infer_column_type vs th"
  shows "type_count vs (infer_column_type vs th) = max_count vs
         \<and> seen_before vs (infer_column_type vs th) t"
proof -
  have ne: "non_null_types vs \<noteq> []"
    using assms(1) by (auto simp: non_null_types_empty_iff list_ex_iff list_all_iff)
  have r: "infer_column_type vs th =
      fst (first_max (hd (map (\<lambda>t. (t, type_count vs t)) (first_occ (non_null_types vs))))
                     (tl (map (\<lambda>t. (t, type_count vs t)) (first_occ (non_null_types vs)))))"
    using assms(2) by (simp add: infer_column_type_cases[OF ne])
  show ?thesis
    using most_common_props(3,4)[OF ne] most_common_props(5)[OF ne assms(3) _ assms(4)] assms(5)
    unfolding r by simp
qed

theorem infer_column_type_tie_break_witness:
  "list_ex (\<lambda>v. infer_type v \<noteq> NULL)
     [JsonVal (JBool True), JsonVal (JInt 1), JsonVal (JInt 2), JsonVal (JBool False)]
   \<and> (1 / 2 :: rat) \<le> of_nat (max_count
     [JsonVal (JBool True), JsonVal (JInt 1), JsonVal (JInt 2), JsonVal (JBool False)])
       / of_nat (non_null_count
     [JsonVal (JBool True), JsonVal (JInt 1), JsonVal (JInt 2), JsonVal (JBool False)])
   \<and> type_count [JsonVal (JBool True), JsonVal (JInt 1), JsonVal (JInt 2), JsonVal (JBool False)]
        INTEGER = max_count
          [JsonVal (JBool True), JsonVal (JInt 1), JsonVal (JInt 2), JsonVal (JBool False)]
   \<and> infer_column_type
        [JsonVal (JBool True), JsonVal (JInt 1), JsonVal (JInt 2), JsonVal (JBool False)] (1 / 2)
       = BOOLEAN
   \<and> seen_before
        [JsonVal (JBool True), JsonVal (JInt 1), JsonVal (JInt 2), JsonVal (JBool False)]
        BOOLEAN INTEGER"
proof -
  let ?vs = "[JsonVal (JBool True), JsonVal (JInt 1), JsonVal (JInt 2), JsonVal (JBool False)]"
  have h: "list_ex (\<lambda>v. infer_type v \<noteq> NULL) ?vs" by code_simp
  have m: "max_count ?vs = 2" by code_simp
  have n: "non_null_count ?vs = 4" by code_simp
  have c: "type_count ?vs INTEGER = 2" by code_simp
  have r: "infer_column_type ?vs (1 / 2) = BOOLEAN" by code_simp
  have th: "(1 / 2 :: rat) \<le> of_nat (max_count ?vs) / of_nat (non_null_count ?vs)"
    by (simp add: m n)
  have "seen_before ?vs (infer_column_type ?vs (1 / 2)) INTEGER"
    using infer_column_type_tie_break[OF h th, of INTEGER] c m r by simp
  then show ?thesis using h th c m r by simp
qed

section \<open>Classifying one value\<close>

lemma char_of_eq_iff:
  "n < 256 \<Longrightarrow> char_of (n::nat) = c \<longleftrightarrow> n = of_char c"
  by (metis char_of_char of_char_of mod_less)

lemma ord_lt_256: "ord c < 256"
  by (simp add: ord_def)

lemma ord_inject: "ord c = ord d \<longleftrightarrow> c = d"
  by (simp add: ord_def)

lemma upper_char_same:
  assumes "\<not> (97 \<le> ord d \<and> ord d \<le> 122)"
  shows "upper_char c = d \<longleftrightarrow> same_up_to_case c d"
proof (cases "97 \<le> ord c \<and> ord c \<le> 122")
  case True
  have lt: "ord c - 32 < 256" using ord_lt_256[of c] by arith
  have "upper_char c = d \<longleftrightarrow> ord c - 32 = ord d"
    using True char_of_eq_iff[OF lt, of d] by (simp add: upper_char_def ord_def)
  also have "\<dots> \<longleftrightarrow> ord c = ord d + 32"
    using True by arith
  also have "\<dots> \<longleftrightarrow> same_up_to_case c d"
    using True assms ord_inject[of c d] by (auto simp: same_up_to_case_def is_capital_def)
  finally show ?thesis .
next
  case False
  have "upper_char c = d \<longleftrightarrow> c = d"
    using False by (auto simp: upper_char_def)
  also have "\<dots> \<longleftrightarrow> same_up_to_case c d"
    using False assms by (auto simp: same_up_to_case_def is_capital_def)
  finally show ?thesis .
qed

lemma upper_ci_equal:
  "list_all (\<lambda>d. \<not> (97 \<le> ord d \<and> ord d \<le> 122)) w \<Longrightarrow> upper t = w \<longleftrightarrow> ci_equal t w"
proof (induction t arbitrary: w)
  case Nil
  show ?case by (auto simp: upper_def ci_equal_def)
next
  case (Cons c t)
  show ?case
  proof (cases w)
    case Nil
    then show ?thesis by (simp add: upper_def ci_equal_def)
  next
    case (Cons d w')
    then show ?thesis
      using Cons.IH[of w'] Cons.prems upper_char_same[of d c]
      by (simp add: upper_def ci_equal_def)
  qed
qed

lemma upper_null_tokens: "upper t \<in> set null_words \<longleftrightarrow> ci_member t spec_null_tokens"
proof -
  have "list_all (list_all (\<lambda>d. \<not> (97 \<le> ord d \<and> ord d \<le> 122))) spec_null_tokens"
    by (simp add: spec_null_tokens_def ord_def)
  then show ?thesis
    by (simp add: null_words_def spec_null_tokens_def ci_member_def upper_ci_equal)
qed

lemma upper_bool_tokens: "upper t \<in> set bool_words \<longleftrightarrow> ci_member t spec_bool_tokens"
proof -
  have "list_all (list_all (\<lambda>d. \<not> (97 \<le> ord d \<and> ord d \<le> 122))) spec_bool_tokens"
    by (simp add: spec_bool_tokens_def ord_def)
  then show ?thesis
    by (simp add: bool_words_def spec_bool_tokens_def ci_member_def upper_ci_equal)
qed


lemma lower_char_e: "lower_char c = CHR ''e'' \<longleftrightarrow> is_e c"
proof (cases "65 \<le> ord c \<and> ord c \<le> 90")
  case True
  then have lt: "ord c + 32 < 256" by simp
  have "lower_char c = CHR ''e'' \<longleftrightarrow> ord c + 32 = of_char CHR ''e''"
    using True char_of_eq_iff[OF lt] by (simp add: lower_char_def)
  also have "\<dots> \<longleftrightarrow> ord c = 69" by auto
  also have "\<dots> \<longleftrightarrow> c = CHR ''E''"
  proof -
    have "of_char CHR ''E'' = (69::nat)" by simp
    then show ?thesis unfolding ord_def by (metis of_char_eq_iff)
  qed
  also have "\<dots> \<longleftrightarrow> is_e c" using True by (auto simp: is_e_def ord_def)
  finally show ?thesis .
next
  case False
  then have "c \<noteq> CHR ''E''" by (auto simp: ord_def)
  then show ?thesis using False by (auto simp: lower_char_def is_e_def)
qed

lemma lower_char_e_sym: "CHR ''e'' = lower_char c \<longleftrightarrow> is_e c"
  using lower_char_e[of c] by auto

lemma e_in_lower: "CHR ''e'' \<in> set (lower t) \<longleftrightarrow> list_ex is_e t"
  by (induction t) (auto simp: lower_def lower_char_e_sym)

lemma point_or_exponent:
  "has_point_or_exponent t \<longleftrightarrow> \<not> (CHR ''.'' \<notin> set t \<and> CHR ''e'' \<notin> set (lower t))"
  by (auto simp: has_point_or_exponent_def e_in_lower list_ex_iff is_e_def)

lemma filter_dropWhile:
  "(\<And>c. P c \<Longrightarrow> \<not> Q c) \<Longrightarrow> filter Q (dropWhile P s) = filter Q s"
  by (induction s) auto

lemma space_not_digit: "num_isspace c \<Longrightarrow> \<not> is_digit c"
  by (auto simp: num_isspace_def is_digit_def)

lemma sign_not_digit: "is_sign c \<Longrightarrow> \<not> is_digit c"
  by (auto simp: is_sign_def is_digit_def ord_def)

lemma digits_num_strip: "filter is_digit (num_strip s) = filter is_digit s"
proof -
  have "filter is_digit (num_strip s) =
      rev (filter is_digit (dropWhile num_isspace (rev (dropWhile num_isspace s))))"
    by (simp add: num_strip_def rev_filter)
  also have "\<dots> = rev (filter is_digit (rev (dropWhile num_isspace s)))"
    by (simp add: filter_dropWhile space_not_digit)
  also have "\<dots> = filter is_digit (dropWhile num_isspace s)"
    by (simp add: rev_filter[symmetric])
  also have "\<dots> = filter is_digit s"
    by (simp add: filter_dropWhile space_not_digit)
  finally show ?thesis .
qed

lemma digits_unsign: "filter is_digit (unsign s) = filter is_digit s"
  by (cases s) (auto simp: unsign_def sign_not_digit)

lemma int_ok_iff: "int_ok t \<longleftrightarrow> integer_literal t \<and> digit_count t \<le> 4300"
  by (simp add: int_ok_def integer_literal_def digit_count_def Let_def int_max_str_digits_def
        digits_unsign digits_num_strip)

lemma first_format_find: "first_format v fmts = List.find (strptime_ok v) fmts"
  by (induction fmts) simp_all

lemma is_datetime_iff: "is_datetime t \<longleftrightarrow> detect_date_format t \<noteq> None \<or> re_match_iso t"
  by (auto simp: is_datetime_def detect_date_format_def first_format_find find_None_iff
        list_ex_iff)

lemma infer_text_spec: "infer_text (strip s) = classify_text_spec s"
  unfolding infer_text_def classify_text_spec_def Let_def
  by (simp add: upper_null_tokens upper_bool_tokens int_ok_iff point_or_exponent
        is_datetime_iff)

lemma classify_text_spec_blank: "strip s = [] \<Longrightarrow> classify_text_spec s = NULL"
  by (simp add: classify_text_spec_def)

lemma digitpart_replicate:
  "is_digit c \<Longrightarrow> c \<noteq> CHR ''_'' \<Longrightarrow> digitpart (replicate (Suc n) c)"
  by (induction n) simp_all

lemma long_literal_Suc: "long_literal = replicate (Suc 4300) CHR ''1''"
  by (simp add: long_literal_def)

lemma one_facts:
  "is_digit CHR ''1''" "\<not> py_isspace CHR ''1''" "\<not> num_isspace CHR ''1''"
  "\<not> is_sign CHR ''1''" "\<not> is_e CHR ''1''" "upper_char CHR ''1'' = CHR ''1''"
  by (simp_all add: is_digit_def py_isspace_def num_isspace_def is_sign_def is_e_def
        upper_char_def ord_def)

lemma strip_long_literal: "strip long_literal = long_literal"
  by (simp add: strip_def long_literal_def dropWhile_replicate one_facts)

lemma num_strip_long_literal: "num_strip long_literal = long_literal"
  by (simp add: num_strip_def long_literal_def dropWhile_replicate one_facts)

lemma unsign_replicate: "\<not> is_sign c \<Longrightarrow> unsign (replicate n c) = replicate n c"
  by (cases n) (simp_all add: unsign_def)

lemma unsign_long_literal: "unsign long_literal = long_literal"
  by (simp add: long_literal_def unsign_replicate one_facts)

lemma integer_literal_long: "integer_literal long_literal"
  unfolding integer_literal_def num_strip_long_literal unsign_long_literal
  unfolding long_literal_Suc
  by (rule digitpart_replicate) (simp_all add: one_facts)

lemma digit_count_long: "digit_count long_literal = 4301"
  by (simp add: digit_count_def long_literal_def one_facts)

lemma no_point_long: "\<not> has_point_or_exponent long_literal"
  by (simp add: has_point_or_exponent_def long_literal_def list_ex_iff)

lemma float_ok_long: "float_ok long_literal"
proof -
  have m: "mantissa_ok long_literal"
    using integer_literal_long
    by (simp add: mantissa_ok_def Let_def integer_literal_def num_strip_long_literal
          unsign_long_literal)
       (simp add: long_literal_def takeWhile_replicate dropWhile_replicate)
  have "decimal_ok long_literal"
    using m
    by (simp add: decimal_ok_def Let_def)
       (simp add: long_literal_def takeWhile_replicate dropWhile_replicate one_facts)
  then show ?thesis
    by (simp add: float_ok_def Let_def num_strip_long_literal unsign_long_literal)
qed

lemma not_token_long:
  "\<not> ci_member long_literal spec_null_tokens" "\<not> ci_member long_literal spec_bool_tokens"
proof -
  have ne: "length w < 4301 \<Longrightarrow> \<not> ci_equal long_literal w" for w
    by (auto simp: ci_equal_def long_literal_def dest: list_all2_lengthD)
  show "\<not> ci_member long_literal spec_null_tokens" "\<not> ci_member long_literal spec_bool_tokens"
    by (simp_all add: ci_member_def spec_null_tokens_def spec_bool_tokens_def ne)
qed

lemma classify_long_literal: "classify_text_spec long_literal = FLOAT"
  using not_token_long float_ok_long digit_count_long
  by (simp add: classify_text_spec_def Let_def strip_long_literal)
     (simp add: long_literal_def)

lemma infer_type_eq_spec: "infer_type v = classify_spec v"
proof (cases v)
  case (DateTimeVal d)
  then show ?thesis
    by (simp add: infer_type_def classify_spec_def isinstance_str_def isinstance_bool_def
          isinstance_int_def isinstance_float_def isinstance_datetime_def)
next
  case (JsonVal j)
  then show ?thesis
    by (cases j)
       (simp_all add: infer_type_def classify_spec_def isinstance_str_def isinstance_bool_def
          isinstance_int_def isinstance_float_def isinstance_datetime_def str_of_def py_str_def
          infer_text_spec classify_text_spec_blank)
qed

text \<open>
  Claim C2 (as amended). For every value \<^verbatim>\<open>infer_type\<close> follows the decision list of
  the specification, the first matching step deciding: a native null and a text that is
  empty after trimming are Null; a native boolean is Boolean, a native integer Integer, a
  native float Float, a native datetime DateTime; any other value is taken as text,
  trimmed, and then a match without regard to case with one of the six null tokens gives
  Null, such a match with one of the six boolean tokens gives Boolean, an integer literal
  of at most 4300 digits without point or exponent gives Integer, a float literal (and
  with it an integer literal of more digits) gives Float, a text that one of the eight
  formats parses or that matches the fallback expression gives DateTime, and everything
  else String. The texts 0 and 1 are Integer, and the examples of the specification are
  classified as it says.
\<close>
theorem infer_type_decision_order:
  "infer_type v = classify_spec v
   \<and> infer_type (JsonVal (JStr ''0'')) = INTEGER
   \<and> infer_type (JsonVal (JStr ''1'')) = INTEGER
   \<and> infer_type (JsonVal (JStr [])) = NULL
   \<and> infer_type (JsonVal (JStr ''   '')) = NULL
   \<and> infer_type (JsonVal (JStr ''null'')) = NULL
   \<and> infer_type (JsonVal (JStr ''Yes'')) = BOOLEAN
   \<and> infer_type (JsonVal (JStr ''  true '')) = BOOLEAN
   \<and> infer_type (JsonVal (JStr ''123'')) = INTEGER
   \<and> infer_type (JsonVal (JStr ''3.14'')) = FLOAT
   \<and> infer_type (JsonVal (JStr ''2024-01-15'')) = DATETIME
   \<and> infer_type (JsonVal (JStr ''hello@x.com'')) = STRING"
proof -
  have zero: "infer_type (JsonVal (JStr ''0'')) = INTEGER" by code_simp
  have one: "infer_type (JsonVal (JStr ''1'')) = INTEGER" by code_simp
  have empty: "infer_type (JsonVal (JStr [])) = NULL" by code_simp
  have blank: "infer_type (JsonVal (JStr ''   '')) = NULL" by code_simp
  have null: "infer_type (JsonVal (JStr ''null'')) = NULL" by code_simp
  have true: "infer_type (JsonVal (JStr ''  true '')) = BOOLEAN" by code_simp
  have yes: "infer_type (JsonVal (JStr ''Yes'')) = BOOLEAN" by code_simp
  have int: "infer_type (JsonVal (JStr ''123'')) = INTEGER" by code_simp
  have float: "infer_type (JsonVal (JStr ''3.14'')) = FLOAT" by code_simp
  have date: "infer_type (JsonVal (JStr ''2024-01-15'')) = DATETIME" by code_simp
  have str: "infer_type (JsonVal (JStr ''hello@x.com'')) = STRING" by code_simp
  show ?thesis
    using infer_type_eq_spec[of v] zero one empty blank null yes true int float date str
    by simp
qed

text \<open>
  A text of 4301 digits is an integer literal without point or exponent, and is Float: the
  conversion to an integer raises on it, and the conversion to a float returns.
\<close>

theorem infer_type_long_literal:
  "integer_literal long_literal
   \<and> \<not> has_point_or_exponent long_literal
   \<and> \<not> ci_member long_literal spec_null_tokens
   \<and> \<not> ci_member long_literal spec_bool_tokens
   \<and> infer_type (JsonVal (JStr long_literal)) = FLOAT"
  using integer_literal_long no_point_long not_token_long classify_long_literal
  by (simp add: infer_type_eq_spec classify_spec_def)

text \<open>
  Claim C7. The timestamp with fractional seconds is DateTime for \<^verbatim>\<open>infer_type\<close>, none of
  the eight formats parses it, the fallback expression matches it, and
  \<^verbatim>\<open>detect_date_format\<close> returns None on it. On every text
  \<^verbatim>\<open>detect_date_format\<close> returns the first of the eight formats, in their fixed order,
  that parses the text, and None when no format does.
\<close>
theorem detect_date_format_no_fallback:
  "infer_type (JsonVal (JStr fractional_example)) = DATETIME
   \<and> \<not> list_ex (strptime_ok fractional_example) DATETIME_FORMATS
   \<and> re_match_iso fractional_example
   \<and> detect_date_format fractional_example = None
   \<and> detect_date_format v =
       List.find (strptime_ok v)
         [''%Y-%m-%dT%H:%M:%SZ'', ''%Y-%m-%dT%H:%M:%S'', ''%Y-%m-%d %H:%M:%S'', ''%Y-%m-%d'',
          ''%d/%m/%Y'', ''%m/%d/%Y'', ''%d-%m-%Y'', ''%Y/%m/%d'']"
proof -
  have a: "infer_type (JsonVal (JStr fractional_example)) = DATETIME" by code_simp
  have b: "\<not> list_ex (strptime_ok fractional_example) DATETIME_FORMATS" by code_simp
  have c: "re_match_iso fractional_example" by code_simp
  have d: "detect_date_format fractional_example = None"
    using b by (simp add: detect_date_format_def first_format_find find_None_iff list_ex_iff)
  have e: "detect_date_format v =
       List.find (strptime_ok v)
         [''%Y-%m-%dT%H:%M:%SZ'', ''%Y-%m-%dT%H:%M:%S'', ''%Y-%m-%d %H:%M:%S'', ''%Y-%m-%d'',
          ''%d/%m/%Y'', ''%m/%d/%Y'', ''%d-%m-%Y'', ''%Y/%m/%d'']"
    by (simp add: detect_date_format_def first_format_find DATETIME_FORMATS_def)
  show ?thesis using a b c d e by blast
qed

section \<open>The JSON structure flattener\<close>

lemma flatten_loop_append:
  "flatten_loop (xs @ ys) prefix md d acc = flatten_loop ys prefix md d (flatten_loop xs prefix md d acc)"
  by (induction xs arbitrary: acc) (auto simp: Let_def)

lemma map_of_dict_set: "map_of (dict_set d k v) = (map_of d)(k \<mapsto> v)"
  by (induction d) (auto simp: fun_eq_iff)

lemma keys_dict_set: "fst ` set (dict_set d k v) = insert k (fst ` set d)"
proof (induction d)
  case Nil
  show ?case by simp
next
  case (Cons a d)
  then show ?case by (cases a) auto
qed

lemma distinct_dict_set: "distinct (map fst d) \<Longrightarrow> distinct (map fst (dict_set d k v))"
  by (induction d) (auto simp: keys_dict_set)

lemma distinct_dict_update: "distinct (map fst d) \<Longrightarrow> distinct (map fst (dict_update d e))"
  by (induction e arbitrary: d) (auto simp: distinct_dict_set)

lemma map_of_dict_update: "map_of (dict_update a b) = map_of a ++ map_of (rev b)"
proof (induction b arbitrary: a)
  case Nil
  show ?case by simp
next
  case (Cons x b)
  obtain k v where x: "x = (k, v)" by (cases x)
  have "map_of (dict_update a (x # b)) = (map_of a)(k \<mapsto> v) ++ map_of (rev b)"
    by (simp only: x dict_update.simps Cons.IH map_of_dict_set)
  also have "\<dots> = map_of a ++ map_of (rev (x # b))"
    by (simp add: x fun_eq_iff map_add_def split: option.splits)
  finally show ?case .
qed

lemma distinct_flatten_loop:
  "distinct (map fst acc) \<Longrightarrow> distinct (map fst (flatten_loop obj prefix md d acc))"
proof (induction obj arbitrary: acc)
  case Nil
  then show ?case by simp
next
  case (Cons x obj)
  obtain k v where x: "x = (k, v)" by (cases x)
  show ?case
    unfolding x flatten_loop.simps Let_def
    by (rule Cons.IH, cases v)
       (simp_all add: Cons.prems distinct_dict_set distinct_dict_update)
qed

lemma map_of_rev_distinct:
  assumes "distinct (map fst xs)"
  shows "map_of (rev xs) = map_of xs"
proof -
  have "distinct (rev (map fst xs))"
    using assms by simp
  then have "distinct (map fst (rev xs))"
    by (simp only: rev_map)
  then show ?thesis
    using assms by (simp add: map_of_inject_set)
qed

lemma map_of_dict_update_dict:
  "distinct (map fst b) \<Longrightarrow> map_of (dict_update a b) = map_of a ++ map_of b"
  by (simp add: map_of_dict_update map_of_rev_distinct)

text \<open>
  Claim C5. (as amended) Processing one more pair \<open>(key, value)\<close> of an object changes the
  flattened record as follows, with \<open>new_key\<close> the prefix followed by the key. A nested
  object below the maximal depth is flattened with the prefix \<open>new_key\<close> and an underscore
  one level deeper, and its fields are merged into the record, a merged field replacing an
  earlier field of the same name. A nested object at the maximal depth is stored under
  \<open>new_key\<close> as it is. A list is stored under \<open>new_key\<close> as one text: the empty text
  for the empty list, the JSON text of the list when its first element is an object, the
  elements printed and joined by a comma and a blank when all of them are scalars and none
  is null, and the JSON text of the list in every other case. Any other value is stored
  under \<open>new_key\<close> unchanged.
\<close>

theorem flatten_object_rules:
  "map_of (flatten_object (obj @ [(key, value)]) prefix max_depth depth) =
     (let flattened = map_of (flatten_object obj prefix max_depth depth);
          new_key = prefix @ key
      in case value of
           JDict nested \<Rightarrow>
             if depth < max_depth
             then flattened ++ map_of (flatten_object nested (new_key @ ''_'') max_depth (depth + 1))
             else flattened(new_key \<mapsto> value)
         | JList xs \<Rightarrow>
             flattened(new_key \<mapsto>
               (if xs = [] then JStr ''''
                else if isinstance_dict (hd xs) then JStr (json_dumps value)
                else if list_all spec_scalar xs \<and> JNull \<notin> set xs
                  then JStr (join '', '' (map py_str xs))
                else JStr (json_dumps value)))
         | _ \<Rightarrow> flattened(new_key \<mapsto> value))"
proof -
  have scalar: "list_all isinstance_scalar xs \<longleftrightarrow> list_all spec_scalar xs \<and> JNull \<notin> set xs" for xs
    by (induction xs) (auto simp: isinstance_scalar_def spec_scalar_def split: json.splits)
  have nested: "distinct (map fst (flatten_loop n p max_depth (Suc depth) []))" for n p
    by (rule distinct_flatten_loop) simp
  have empty: "join '', '' [] = ''''"
    by simp
  show ?thesis
    unfolding flatten_object_def flatten_loop_append
    by (cases "value")
       (simp_all add: Let_def map_of_dict_set map_of_dict_update_dict[OF nested] flatten_list_def
          scalar empty)
qed

text \<open>
  The list \<^verbatim>\<open>[1, null]\<close> holds scalars of the data model only, and is stored as the
  JSON text \<^verbatim>\<open>[1, null]\<close>, not as its elements joined by a comma and a blank.
\<close>

theorem flatten_object_null_in_list:
  "list_all spec_scalar [JInt 1, JNull]
   \<and> flatten_object [(''a'', JList [JInt 1, JNull])] [] default_max_depth 0
       = [(''a'', JStr ''[1, null]'')]
   \<and> JStr ''[1, null]'' \<noteq> JStr (join '', '' (map py_str [JInt 1, JNull]))"
  by code_simp

lemma dict_set_new: "k \<notin> fst ` set d \<Longrightarrow> dict_set d k v = d @ [(k, v)]"
  by (induction d) auto

lemma dict_update_new: "distinct (map fst (a @ b)) \<Longrightarrow> dict_update a b = a @ b"
proof (induction b arbitrary: a)
  case Nil
  show ?case by simp
next
  case (Cons x b)
  obtain k v where x: "x = (k, v)" by (cases x)
  have "dict_update a (x # b) = dict_update (a @ [(k, v)]) b"
    using Cons.prems by (simp add: x dict_set_new)
  also have "\<dots> = (a @ [(k, v)]) @ b"
    using Cons.prems by (intro Cons.IH) (simp add: x)
  finally show ?case by (simp add: x)
qed

lemma length_list_valued:
  "length (list_valued d) = length (filter isinstance_list (map snd d))"
  by (induction d rule: list_valued.induct) (auto simp: isinstance_list_def split: json.splits)

lemma keys_list_valued: "fst ` set (list_valued d) \<subseteq> fst ` set d"
proof (induction d rule: list_valued.induct)
  case 1
  show ?case by simp
next
  case (2 k v d)
  then show ?case by (cases v) (simp_all, blast+)
qed

lemma distinct_list_valued: "distinct (map fst d) \<Longrightarrow> distinct (map fst (list_valued d))"
proof (induction d rule: list_valued.induct)
  case 1
  show ?case by simp
next
  case (2 k v d)
  then show ?case
    using keys_list_valued[of d] by (cases v) auto
qed

lemma flatten_collection_loop_eq:
  "flatten_collection_loop d (hm, recs) =
     (dict_update hm (map (\<lambda>(k, items). (k, length items)) (list_valued d)),
      recs @ concat (map (\<lambda>(k, items). map (flatten_item k) items) (list_valued d)))"
  by (induction d arbitrary: hm recs rule: list_valued.induct) (auto split: json.splits)

lemma is_collection_dict_iff:
  "is_collection_dict d \<longleftrightarrow> list_valued d \<noteq> [] \<and> length d \<le> 2 * length (list_valued d)"
proof -
  let ?n = "length (list_valued d)"
  have "(of_nat (length d) * (5 / 10) \<le> (of_nat ?n :: rat)) \<longleftrightarrow> (of_nat (length d) :: rat) \<le> of_nat (2 * ?n)"
    by (simp add: field_simps)
  also have "\<dots> \<longleftrightarrow> length d \<le> 2 * ?n"
    by (simp only: of_nat_le_iff)
  finally show ?thesis
    unfolding is_collection_dict_def Let_def length_list_valued[symmetric]
    by simp
qed

text \<open>
  Claim C6. For a top-level dict with distinct keys: it is a collection dict exactly when
  at least one value is a list and the list-valued keys are at least half of all keys.
  Then the records are, for each list-valued key \<open>k\<close> in order, the items of its list,
  each turned into a record by \<^verbatim>\<open>flatten_item\<close>, and the hierarchy map gives every
  list-valued key the length of its list; keys whose value is not a list contribute
  nothing. An item that is a dict is flattened with the prefix \<open>k\<close> and an underscore and
  has \<^verbatim>\<open>_entity_type\<close> set to \<open>k\<close>; any other item becomes the record with
  \<^verbatim>\<open>_entity_type\<close> \<open>k\<close> and \<^verbatim>\<open>value\<close> the item. For a dict that is not a
  collection dict, for an array and for a scalar the hierarchy map is empty, and so is the
  hierarchy of data parsed from a CSV file.
\<close>

theorem extract_records_collection_dict:
  assumes "distinct (dict_keys d)"
  shows
    "(is_collection_dict d \<longleftrightarrow> list_valued d \<noteq> [] \<and> length d \<le> 2 * length (list_valued d))
     \<and> (is_collection_dict d \<longrightarrow>
          extract_records (JDict d) =
            (concat (map (\<lambda>(k, items). map (flatten_item k) items) (list_valued d)),
             map (\<lambda>(k, items). (k, length items)) (list_valued d)))
     \<and> map_of (flatten_item k (JDict obj)) =
         (map_of (flatten_object obj (k @ ''_'') default_max_depth 0))
           (''_entity_type'' \<mapsto> JStr k)
     \<and> (\<not> isinstance_dict item \<longrightarrow>
          flatten_item k item = [(''_entity_type'', JStr k), (''value'', item)])
     \<and> (\<not> is_collection_dict d \<longrightarrow>
          extract_records (JDict d) = ([flatten_object d [] default_max_depth 0], []))
     \<and> extract_records (JList xs) = (flatten_records xs, [])
     \<and> (\<not> isinstance_dict v \<and> \<not> isinstance_list v \<longrightarrow>
          extract_records v = ([[(''value'', v)]], []))
     \<and> hierarchy (csv_parse file_path df_records df_field_metadata) = []"
proof -
  have keys: "map fst (map (\<lambda>(k, items). (k, length items)) (list_valued d)) = map fst (list_valued d)"
    by (induction d rule: list_valued.induct) (auto split: json.splits)
  have "distinct (map fst (list_valued d))"
    using assms by (simp add: dict_keys_def distinct_list_valued)
  then have "distinct (map fst ([] @ map (\<lambda>(k, items). (k, length items)) (list_valued d)))"
    unfolding append_Nil keys .
  from dict_update_new[OF this]
  have hm: "dict_update [] (map (\<lambda>(k, items). (k, length items)) (list_valued d)) =
      map (\<lambda>(k, items). (k, length items)) (list_valued d)"
    by simp
  have a: "is_collection_dict d \<longrightarrow>
          extract_records (JDict d) =
            (concat (map (\<lambda>(k, items). map (flatten_item k) items) (list_valued d)),
             map (\<lambda>(k, items). (k, length items)) (list_valued d))"
    by (simp add: extract_records_def flatten_collection_dict_def flatten_collection_loop_eq hm)
  have b: "map_of (flatten_item k (JDict obj)) =
         (map_of (flatten_object obj (k @ ''_'') default_max_depth 0))
           (''_entity_type'' \<mapsto> JStr k)"
    by (simp add: flatten_item_def map_of_dict_set)
  have c: "\<not> isinstance_dict item \<longrightarrow>
          flatten_item k item = [(''_entity_type'', JStr k), (''value'', item)]"
    by (cases item) (simp_all add: flatten_item_def isinstance_dict_def)
  have e: "\<not> isinstance_dict v \<and> \<not> isinstance_list v \<longrightarrow>
          extract_records v = ([[(''value'', v)]], [])"
    by (cases v) (simp_all add: extract_records_def isinstance_dict_def isinstance_list_def)
  have f: "hierarchy (csv_parse file_path df_records df_field_metadata) = []"
    by (simp add: csv_parse_def ParsedData_init_def set_records_def set_field_metadata_def)
  show ?thesis
    using is_collection_dict_iff[of d] a b c e f
    by (simp add: extract_records_def)
qed

theorem extract_records_collection_dict_witness:
  "distinct (dict_keys collection_example)
   \<and> is_collection_dict collection_example
   \<and> extract_records (JDict collection_example) =
       ([[(''users_id'', JInt 1), (''_entity_type'', JStr ''users'')],
         [(''devices_id'', JInt 9), (''_entity_type'', JStr ''devices'')]],
        [(''users'', 1), (''devices'', 1)])"
proof -
  have d: "distinct (dict_keys collection_example)"
    by code_simp
  have l: "list_valued collection_example =
      [(''users'', [JDict [(''id'', JInt 1)]]), (''devices'', [JDict [(''id'', JInt 9)]])]"
    by code_simp
  have i: "flatten_item ''users'' (JDict [(''id'', JInt 1)]) =
             [(''users_id'', JInt 1), (''_entity_type'', JStr ''users'')]"
          "flatten_item ''devices'' (JDict [(''id'', JInt 9)]) =
             [(''devices_id'', JInt 9), (''_entity_type'', JStr ''devices'')]"
    by code_simp+
  have n: "length collection_example = 2"
    by code_simp
  show ?thesis
    using extract_records_collection_dict[OF d, of "''users''" "[(''id'', JInt 1)]" JNull "[]" JNull "[]" "[]" "[]"]
    by (simp add: d l i n)
qed

section \<open>Schema detection\<close>

lemma set_order_ok_remdups: "set_order_ok remdups"
  by (simp add: set_order_ok_def)

lemma set_order_ok_rev_order: "set_order_ok rev_order"
  by (simp add: set_order_ok_def rev_order_def)

lemma order_empty: "set_order_ok order \<Longrightarrow> order [] = []"
  by (metis set_order_ok_def set_empty)

lemma order_single: "set_order_ok order \<Longrightarrow> order [x] = [x]"
proof -
  assume "set_order_ok order"
  then have s: "set (order [x]) = {x}" and d: "distinct (order [x])"
    by (simp_all add: set_order_ok_def)
  show ?thesis
  proof (cases "order [x]")
    case Nil
    then show ?thesis using s by simp
  next
    case (Cons a as)
    then have "a = x" using s by auto
    moreover have "as = []"
    proof (cases as)
      case Nil
      then show ?thesis .
    next
      case (Cons b bs)
      then show ?thesis using s d \<open>order [x] = a # as\<close> \<open>a = x\<close> by auto
    qed
    ultimately show ?thesis using Cons by simp
  qed
qed

lemma metadata_loop_keys:
  "metadata_loop value_order field_types recs names fm = Inr fm' \<Longrightarrow>
   distinct (map fst fm @ names) \<Longrightarrow> map fst fm' = map fst fm @ names"
proof (induction names arbitrary: fm)
  case Nil
  then show ?case by simp
next
  case (Cons n names)
  from Cons.prems(1) obtain m where
    m: "field_metadata_of value_order field_types recs n = Inr m"
    and l: "metadata_loop value_order field_types recs names (dict_set fm n m) = Inr fm'"
    by (auto split: sum.splits)
  have ds: "dict_set fm n m = fm @ [(n, m)]"
    using Cons.prems(2) by (intro dict_set_new) auto
  have "map fst fm' = map fst (fm @ [(n, m)]) @ names"
    using Cons.prems(2) by (intro Cons.IH) (simp_all add: l[unfolded ds])
  then show ?case by simp
qed

lemma detect_schema_keys:
  assumes "set_order_ok order"
    and "detect_schema order value_order hierarchy_map recs = Inr sch"
  shows "dict_keys (schema_field_metadata sch) = all_fields order recs"
proof (cases "recs = []")
  case True
  then show ?thesis
    using assms by (auto simp: detect_schema_def all_fields_def order_empty dict_keys_def)
next
  case False
  have d: "distinct (all_fields order recs)"
    using assms(1) by (simp add: set_order_ok_def all_fields_def)
  from assms(2) False obtain fm where
    fm: "metadata_loop value_order (analyze_field_types order recs) recs (all_fields order recs) [] = Inr fm"
    and s: "sch = \<lparr> schema_field_metadata = fm, schema_hierarchy = hierarchy_map \<rparr>"
    by (auto simp: detect_schema_def Let_def split: sum.splits)
  show ?thesis
    using metadata_loop_keys[OF fm] d by (simp add: s dict_keys_def)
qed

lemma set_all_fields:
  "set_order_ok order \<Longrightarrow> set (all_fields order recs) = (\<Union>r \<in> set recs. set (dict_keys r))"
  by (simp add: set_order_ok_def all_fields_def)

lemma parse_Inr:
  "parse order value_order file_path raw_data = Inr pd \<Longrightarrow>
   \<exists>sch. detect_schema order value_order (snd (extract_records raw_data)) (records pd) = Inr sch
        \<and> field_metadata pd = schema_field_metadata sch
        \<and> records pd = fst (extract_records raw_data)"
  by (auto simp: parse_def Let_def set_hierarchy_def set_field_metadata_def set_records_def
        ParsedData_init_def split: prod.splits sum.splits)

text \<open>
  Claim C9. (as amended) Whatever the order in which a set of names is iterated: when
  schema detection returns, the keys of the field-metadata map are exactly the field
  names that appear in some record, each once, and the map lists them in the order in
  which the set of these names is iterated, which need not be the order of their first
  appearance in the records. The same holds of the field names that \<^verbatim>\<open>get_fields\<close>
  derives from the metadata of parsed data.
\<close>

theorem detect_schema_field_universe:
  assumes "set_order_ok order"
  shows
    "(detect_schema order value_order hierarchy_map recs = Inr sch \<longrightarrow>
        set (dict_keys (schema_field_metadata sch)) = (\<Union>r \<in> set recs. set (dict_keys r))
        \<and> distinct (dict_keys (schema_field_metadata sch))
        \<and> dict_keys (schema_field_metadata sch) = order (concat (map dict_keys recs)))
     \<and> (parse order value_order file_path raw_data = Inr pd \<longrightarrow>
        set (get_fields pd) = (\<Union>r \<in> set (records pd). set (dict_keys r))
        \<and> distinct (get_fields pd)
        \<and> get_fields pd = order (concat (map dict_keys (records pd))))"
proof -
  have a: "set (dict_keys (schema_field_metadata s)) = (\<Union>r \<in> set rs. set (dict_keys r))
        \<and> distinct (dict_keys (schema_field_metadata s))
        \<and> dict_keys (schema_field_metadata s) = order (concat (map dict_keys rs))"
    if "detect_schema order value_order hm rs = Inr s" for hm rs s
    using detect_schema_keys[OF assms that] set_all_fields[OF assms, of rs] assms
    by (simp add: all_fields_def set_order_ok_def)
  have b: "set (get_fields pd) = (\<Union>r \<in> set (records pd). set (dict_keys r))
        \<and> distinct (get_fields pd)
        \<and> get_fields pd = order (concat (map dict_keys (records pd)))"
    if p: "parse order value_order file_path raw_data = Inr pd"
  proof -
    from parse_Inr[OF p] obtain s where
      s: "detect_schema order value_order (snd (extract_records raw_data)) (records pd) = Inr s"
      and f: "field_metadata pd = schema_field_metadata s"
      by blast
    show ?thesis
      unfolding get_fields_def f by (rule a[OF s])
  qed
  show ?thesis
    using a b by blast
qed

theorem detect_schema_field_universe_witness:
  "set_order_ok remdups
   \<and> isl (detect_schema remdups remdups [] two_fields_example) = False
   \<and> dict_keys (schema_field_metadata (projr (detect_schema remdups remdups [] two_fields_example)))
       = [''a'', ''b'']"
proof -
  have r: "isl (detect_schema remdups remdups [] two_fields_example) = False"
    by code_simp
  then have e: "detect_schema remdups remdups [] two_fields_example
      = Inr (projr (detect_schema remdups remdups [] two_fields_example))"
    by (cases "detect_schema remdups remdups [] two_fields_example") simp_all
  have k: "remdups (concat (map dict_keys two_fields_example)) = [''a'', ''b'']"
    by code_simp
  show ?thesis
    using detect_schema_field_universe[OF set_order_ok_remdups, of remdups "[]" two_fields_example
        "projr (detect_schema remdups remdups [] two_fields_example)"]
      e r k set_order_ok_remdups
    by simp
qed

text \<open>
  With the names yielded last inserted first, the metadata map of one record with the
  fields \<^verbatim>\<open>a\<close> and \<^verbatim>\<open>b\<close> lists \<^verbatim>\<open>b\<close> before \<^verbatim>\<open>a\<close>.
\<close>

theorem detect_schema_order_reversed:
  "set_order_ok rev_order
   \<and> map_sum id (\<lambda>s. dict_keys (schema_field_metadata s))
        (detect_schema rev_order remdups [] two_fields_example) = Inr [''b'', ''a'']
   \<and> first_occ (concat (map dict_keys two_fields_example)) = [''a'', ''b'']"
proof -
  have "map_sum id (\<lambda>s. dict_keys (schema_field_metadata s))
        (detect_schema rev_order remdups [] two_fields_example) = Inr [''b'', ''a'']"
    by code_simp
  moreover have "first_occ (concat (map dict_keys two_fields_example)) = [''a'', ''b'']"
    by code_simp
  ultimately show ?thesis
    using set_order_ok_rev_order by simp
qed

text \<open>
  Claim C1. The document with an object nested four levels below the top-level object is
  flattened to one record whose field \<^verbatim>\<open>a_b_c_d\<close> holds the innermost object as it
  is; on this record schema detection raises TypeError, whatever the iteration order of
  sets, and so does \<^verbatim>\<open>parse\<close>: the non-null values of the field are put in a set, and
  an object cannot be hashed.
\<close>

theorem parse_raises_on_deep_object:
  assumes "set_order_ok order"
  shows "extract_records deep_example = ([[(''a_b_c_d'', JDict [(''e'', JInt 1)])]], [])
       \<and> detect_schema order value_order [] [[(''a_b_c_d'', JDict [(''e'', JInt 1)])]] = Inl TypeError
       \<and> parse order value_order file_path deep_example = Inl TypeError"
proof -
  have e: "extract_records deep_example = ([[(''a_b_c_d'', JDict [(''e'', JInt 1)])]], [])"
    by code_simp
  have f: "all_fields order [[(''a_b_c_d'', JDict [(''e'', JInt 1)])]] = [''a_b_c_d'']"
    using order_single[OF assms] by (simp add: all_fields_def dict_keys_def)
  have m: "field_metadata_of value_order ft [[(''a_b_c_d'', JDict [(''e'', JInt 1)])]] ''a_b_c_d''
      = Inl TypeError" for ft
    by (simp add: field_metadata_of_def field_values_def record_get_def hashable_def
        isinstance_dict_def isinstance_list_def)
  have d: "detect_schema order value_order [] [[(''a_b_c_d'', JDict [(''e'', JInt 1)])]] = Inl TypeError"
    by (simp add: detect_schema_def f m Let_def)
  show ?thesis
    using d by (simp add: parse_def e Let_def)
qed

theorem parse_raises_on_deep_object_witness:
  "set_order_ok remdups \<and> parse remdups remdups ''data.json'' deep_example = Inl TypeError"
  using parse_raises_on_deep_object[OF set_order_ok_remdups, of remdups "''data.json''"]
    set_order_ok_remdups
  by simp

end
